theory Spec2Isabelle
  imports Main "HOL-Library.AList" "HOL-Library.Sublist"
begin

section \<open>JavaScript values used by the server\<close>

text \<open>
  The server is an Express application (\<^verbatim>\<open>server.js\<close>). Strings are modelled as
  \<^typ>\<open>string\<close>. A field of a JSON request body that the handlers treat as an
  optional string is a \<^typ>\<open>string option\<close>: \<open>None\<close> is \<^verbatim>\<open>undefined\<close>.
  Objects used as dictionaries (\<^verbatim>\<open>urls\<close>, \<^verbatim>\<open>users\<close>) are association lists
  in insertion order with distinct keys; \<^verbatim>\<open>obj[k] = v\<close> is \<^const>\<open>AList.update\<close>,
  which overwrites an existing key in place and appends a new one. Keys are taken to be
  ordinary property names (domain names, UUIDs). Characters are 8-bit, and the length of
  a string is its number of characters. Counters are natural numbers: the uniqueness
  loop stays far below the range in which a JavaScript number stops being exact.
\<close>

definition truthy :: "string option \<Rightarrow> bool" where
  \<comment> \<open>JavaScript truthiness of an optional string: \<^verbatim>\<open>undefined\<close> and \<^verbatim>\<open>''\<close> are falsy.\<close>
  "truthy v = (case v of None \<Rightarrow> False | Some s \<Rightarrow> s \<noteq> [])"

definition js_or :: "string option \<Rightarrow> string \<Rightarrow> string" where
  \<comment> \<open>\<^verbatim>\<open>v || d\<close> for an optional string \<open>v\<close> and a string \<open>d\<close>.\<close>
  "js_or v d = (case v of None \<Rightarrow> d | Some s \<Rightarrow> if s = [] then d else s)"

section \<open>Multi-domain configuration\<close>

definition SUPPORTED_DOMAINS :: "string list" where
  "SUPPORTED_DOMAINS =
     [''ntandostore'', ''ntando.app'', ''ntando.cloud'', ''ntando.zw'', ''ntl.cloud'',
      ''ntl.ai'', ''ntando.tech'', ''ntando.dev'', ''ntando.host'', ''ntando.site'']"

definition PRIMARY_DOMAIN :: string where
  "PRIMARY_DOMAIN = ''ntandostore''"

section \<open>Site URLs\<close>

definition site_url :: "string \<Rightarrow> string \<Rightarrow> string \<Rightarrow> string" where
  \<comment> \<open>The template literal \<^verbatim>\<open>`https://${userSubdomain}-${siteSlug}.${domain}`\<close>.\<close>
  "site_url userSubdomain siteSlug domain =
     ''https://'' @ userSubdomain @ ''-'' @ siteSlug @ ''.'' @ domain"

definition generateSiteUrls :: "string list \<Rightarrow> string \<Rightarrow> string \<Rightarrow> (string \<times> string) list" where
  \<comment> \<open>\<^verbatim>\<open>generateSiteUrls(userSubdomain, siteSlug)\<close>. The source iterates over the module
      constant \<^verbatim>\<open>SUPPORTED_DOMAINS\<close>; the list is the first argument here, and the
      handler passes \<^const>\<open>SUPPORTED_DOMAINS\<close>.\<close>
  "generateSiteUrls domains userSubdomain siteSlug =
     foldl (\<lambda>urls domain. AList.update domain (site_url userSubdomain siteSlug domain) urls)
       [] domains"

section \<open>Numbers in template literals\<close>

definition digits :: string where
  "digits = ''0123456789''"

definition digit_char :: "nat \<Rightarrow> char" where
  "digit_char d = digits ! d"

fun nat_to_string :: "nat \<Rightarrow> string" where
  \<comment> \<open>\<^verbatim>\<open>`${n}`\<close> for a non-negative integer \<open>n\<close>: its decimal digits.\<close>
  "nat_to_string n =
     (if n < 10 then [digit_char n] else nat_to_string (n div 10) @ [digit_char (n mod 10)])"

declare nat_to_string.simps [simp del]

section \<open>Character classes and string methods\<close>

definition lower_letters :: string where
  "lower_letters = ''abcdefghijklmnopqrstuvwxyz''"

definition upper_letters :: string where
  "upper_letters = ''ABCDEFGHIJKLMNOPQRSTUVWXYZ''"

definition startsWith :: "string \<Rightarrow> string \<Rightarrow> bool" where
  "startsWith s p = prefix p s"

definition endsWith :: "string \<Rightarrow> string \<Rightarrow> bool" where
  "endsWith s p = prefix (rev p) (rev s)"

definition toLowerCase_char :: "char \<Rightarrow> char" where
  "toLowerCase_char c =
     (case map_of (zip upper_letters lower_letters) c of Some l \<Rightarrow> l | None \<Rightarrow> c)"

definition toLowerCase :: "string \<Rightarrow> string" where
  \<comment> \<open>\<^verbatim>\<open>s.toLowerCase()\<close> on the characters modelled here: the letters \<open>A\<close> to \<open>Z\<close>
      map to \<open>a\<close> to \<open>z\<close>, every other character to itself.\<close>
  "toLowerCase s = map toLowerCase_char s"

section \<open>Subdomain generation\<close>

definition adjectives :: "string list" where
  "adjectives = [''quick'', ''bright'', ''clever'', ''swift'', ''smart'', ''happy'', ''lucky'',
     ''sunny'', ''cool'', ''warm'']"

definition nouns :: "string list" where
  "nouns = [''site'', ''web'', ''page'', ''space'', ''zone'', ''hub'', ''spot'', ''place'',
     ''world'', ''realm'']"

definition element_at :: "string list \<Rightarrow> nat \<Rightarrow> string" where
  \<comment> \<open>\<^verbatim>\<open>`${xs[i]}`\<close>: an index past the end reads \<^verbatim>\<open>undefined\<close>.\<close>
  "element_at xs i = (if i < length xs then xs ! i else ''undefined'')"

record random_draws =
  draw_number :: nat \<comment> \<open>\<^verbatim>\<open>Math.floor(Math.random() * 9999)\<close>, in \<open>[0, 9998]\<close>\<close>
  draw_adjective :: nat \<comment> \<open>\<^verbatim>\<open>Math.floor(Math.random() * adjectives.length)\<close>, in \<open>[0, 9]\<close>\<close>
  draw_noun :: nat \<comment> \<open>\<^verbatim>\<open>Math.floor(Math.random() * nouns.length)\<close>, in \<open>[0, 9]\<close>\<close>

definition draws_in_range :: "random_draws \<Rightarrow> bool" where
  \<comment> \<open>\<^verbatim>\<open>Math.random()\<close> returns a number in \<open>[0, 1)\<close>.\<close>
  "draws_in_range r =
     (draw_number r < 9999 \<and> draw_adjective r < length adjectives \<and> draw_noun r < length nouns)"

definition generateSubdomain :: "random_draws \<Rightarrow> string \<Rightarrow> string" where
  "generateSubdomain r username' =
     (let numbers = draw_number r + 1;
          adjective = element_at adjectives (draw_adjective r);
          noun = element_at nouns (draw_noun r)
      in username' @ ''-'' @ adjective @ noun @ nat_to_string numbers)"

section \<open>Validation\<close>

definition validateUsername :: "string \<Rightarrow> bool" where
  "validateUsername u =
     (if \<not> (u \<noteq> [] \<and> list_all (\<lambda>c. c \<in> set (lower_letters @ upper_letters @ digits @ ''_-'')) u)
      then False
      else if length u < 3 \<or> length u > 30 then False
      else if startsWith u ''-'' \<or> endsWith u ''-'' \<or> startsWith u ''_'' \<or> endsWith u ''_''
      then False
      else if toLowerCase u \<in> set [''www'', ''api'', ''admin'', ''dashboard'', ''mail'', ''ftp'',
                ''cdn'', ''static'', ''assets'', ''hosted'', ''users'']
      then False
      else True)"

definition validateSubdomain :: "string \<Rightarrow> bool" where
  "validateSubdomain s =
     (if \<not> (s \<noteq> [] \<and> list_all (\<lambda>c. c \<in> set (lower_letters @ upper_letters @ digits @ ''-'')) s)
      then False
      else if length s < 3 \<or> length s > 63 then False
      else if startsWith s ''-'' \<or> endsWith s ''-'' then False
      else True)"

section \<open>Stored data\<close>

record site =
  site_id :: string
  name :: string
  slug :: string
  domain :: string
  urls :: "(string \<times> string) list"
  createdAt :: string
  updatedAt :: string
  visits :: nat
  published :: bool

record user =
  user_id :: string
  username :: string
  email :: string
  password :: string
  user_createdAt :: string
  subdomain :: string
  sites :: "site list"

record store =
  users :: "(string \<times> user) list" \<comment> \<open>the object in \<^verbatim>\<open>users.json\<close>, keyed by user id\<close>
  dirs :: "string list list" \<comment> \<open>directories below \<^verbatim>\<open>USERS_DIR\<close>, as path components\<close>
  files :: "(string list \<times> string) list" \<comment> \<open>files below \<^verbatim>\<open>USERS_DIR\<close> and their content\<close>

datatype exn = TypeError | IOError

datatype error =
    FieldsRequired \<comment> \<open>400 \<^verbatim>\<open>All fields are required\<close>\<close>
  | InvalidUsername \<comment> \<open>400 \<^verbatim>\<open>Invalid username. ...\<close>\<close>
  | PasswordTooShort \<comment> \<open>400 \<^verbatim>\<open>Password must be at least 6 characters long\<close>\<close>
  | UsernameTaken \<comment> \<open>400 \<^verbatim>\<open>Username already taken\<close>\<close>
  | EmailRegistered \<comment> \<open>400 \<^verbatim>\<open>Email already registered\<close>\<close>
  | RegistrationFailed exn \<comment> \<open>500 \<^verbatim>\<open>Registration failed\<close>, with the exception caught\<close>
  | MissingContent \<comment> \<open>400 \<^verbatim>\<open>HTML content is required\<close>\<close>
  | UserDataNotFound \<comment> \<open>500 \<^verbatim>\<open>User data not found\<close>\<close>
  | UserNotFound \<comment> \<open>404 \<^verbatim>\<open>User not found\<close>\<close>
  | InvalidSlug \<comment> \<open>400 \<^verbatim>\<open>Invalid site name. ...\<close>\<close>
  | UploadFailed exn \<comment> \<open>500 \<^verbatim>\<open>Failed to upload site\<close>, with the exception caught\<close>

section \<open>Registration\<close>

record register_body =
  reg_username :: "string option"
  reg_email :: "string option"
  reg_password :: "string option"

record register_env =
  reg_read_users_ok :: bool \<comment> \<open>reading and parsing \<^verbatim>\<open>users.json\<close> succeeds\<close>
  reg_hash :: string \<comment> \<open>\<^verbatim>\<open>bcrypt.hash(password, 10)\<close>\<close>
  reg_uuid :: string \<comment> \<open>\<^verbatim>\<open>crypto.randomUUID()\<close>\<close>
  reg_now :: string \<comment> \<open>\<^verbatim>\<open>new Date().toISOString()\<close>\<close>
  reg_draws :: random_draws
  reg_write_users_ok :: bool \<comment> \<open>writing \<^verbatim>\<open>users.json\<close> succeeds\<close>
  reg_mkdir_ok :: bool \<comment> \<open>creating the user directory succeeds\<close>

definition register :: "register_env \<Rightarrow> register_body \<Rightarrow> store \<Rightarrow> (error + user) \<times> store" where
  \<comment> \<open>\<^verbatim>\<open>POST /api/register\<close>. A failed read of \<^verbatim>\<open>users.json\<close> is swallowed and the
      handler goes on with an empty object.\<close>
  "register env body st =
     (if \<not> truthy (reg_username body) \<or> \<not> truthy (reg_email body) \<or> \<not> truthy (reg_password body)
      then (Inl FieldsRequired, st)
      else
        let username' = the (reg_username body);
            email' = the (reg_email body);
            password' = the (reg_password body)
        in if \<not> validateUsername username' then (Inl InvalidUsername, st)
        else if length password' < 6 then (Inl PasswordTooShort, st)
        else
          let users' = (if reg_read_users_ok env then users st else [])
          in if list_ex (\<lambda>u. username u = username') (map snd users') then (Inl UsernameTaken, st)
          else if list_ex (\<lambda>u. email u = email') (map snd users') then (Inl EmailRegistered, st)
          else
            let userId = reg_uuid env;
                new_user = \<lparr>user_id = userId, username = username', email = email',
                    password = reg_hash env, user_createdAt = reg_now env,
                    subdomain = generateSubdomain (reg_draws env) username', sites = []\<rparr>;
                users'' = AList.update userId new_user users'
            in if \<not> reg_write_users_ok env then (Inl (RegistrationFailed IOError), st)
            else
              let st1 = st\<lparr>users := users''\<rparr>
              in if \<not> reg_mkdir_ok env then (Inl (RegistrationFailed IOError), st1)
              else (Inr new_user, st1\<lparr>dirs := List.insert [subdomain new_user] (dirs st1)\<rparr>))"

section \<open>Slug derivation\<close>

definition is_a_z_0_9 :: "char \<Rightarrow> bool" where
  \<comment> \<open>the character class \<^verbatim>\<open>[a-z0-9]\<close>\<close>
  "is_a_z_0_9 c = (c \<in> set (lower_letters @ digits))"

function replace_non_alnum_runs :: "string \<Rightarrow> string" where
  \<comment> \<open>\<^verbatim>\<open>s.replace(/[^a-z0-9]+/g, '-')\<close>: at a character outside the class the greedy
      match takes every following character outside the class, and the whole match
      becomes one hyphen; scanning resumes after the match.\<close>
  "replace_non_alnum_runs [] = []"
| "replace_non_alnum_runs (c # cs) =
     (if is_a_z_0_9 c then c # replace_non_alnum_runs cs
      else CHR ''-'' # replace_non_alnum_runs (dropWhile (\<lambda>d. \<not> is_a_z_0_9 d) cs))"
  by pat_completeness auto
termination
  by (relation "measure length") (auto intro: le_imp_less_Suc length_dropWhile_le)

definition strip_edge_hyphens :: "string \<Rightarrow> string" where
  \<comment> \<open>\<^verbatim>\<open>s.replace(/^-|-$/g, '')\<close>: a hyphen at the start is removed, then a hyphen at
      the end of what is left.\<close>
  "strip_edge_hyphens s =
     (let s1 = (if startsWith s ''-'' then tl s else s)
      in if endsWith s1 ''-'' then butlast s1 else s1)"

definition derive_slug :: "string option \<Rightarrow> exn + string" where
  \<comment> \<open>\<^verbatim>\<open>siteName.toLowerCase().replace(/[^a-z0-9]+/g, '-').replace(/^-|-$/g, '') || 'site'\<close>;
      calling \<^verbatim>\<open>toLowerCase\<close> on \<^verbatim>\<open>undefined\<close> throws a \<^verbatim>\<open>TypeError\<close>.\<close>
  "derive_slug siteName' =
     (case siteName' of
        None \<Rightarrow> Inl TypeError
      | Some n \<Rightarrow>
          Inr (js_or (Some (strip_edge_hyphens (replace_non_alnum_runs (toLowerCase n)))) ''site''))"

definition candidate_slug :: "string option \<Rightarrow> string option \<Rightarrow> exn + string" where
  \<comment> \<open>\<^verbatim>\<open>let slug = siteSlug; if (!slug) { slug = ... }\<close>\<close>
  "candidate_slug siteSlug' siteName' =
     (if truthy siteSlug' then Inr (the siteSlug') else derive_slug siteName')"

section \<open>Unique slug within a user's sites\<close>

definition slug_taken :: "site list \<Rightarrow> string \<Rightarrow> bool" where
  \<comment> \<open>\<^verbatim>\<open>user.sites.some(site => site.slug === finalSlug)\<close>\<close>
  "slug_taken ss finalSlug = list_ex (\<lambda>s. slug s = finalSlug) ss"

definition suffixed :: "string \<Rightarrow> nat \<Rightarrow> string" where
  \<comment> \<open>\<^verbatim>\<open>`${slug}-${counter}`\<close>\<close>
  "suffixed candidate counter = candidate @ ''-'' @ nat_to_string counter"

lemma nat_to_string_nonempty: "nat_to_string n \<noteq> []"
  by (subst nat_to_string.simps) simp

lemma digit_char_inj: "a < 10 \<Longrightarrow> b < 10 \<Longrightarrow> digit_char a = digit_char b \<Longrightarrow> a = b"
proof -
  assume a: "a < 10" and b: "b < 10" and eq: "digit_char a = digit_char b"
  have "distinct digits" by (simp add: digits_def)
  moreover have "a < length digits" "b < length digits"
    using a b by (simp_all add: digits_def)
  ultimately show "a = b"
    using eq by (simp add: digit_char_def nth_eq_iff_index_eq)
qed

lemma nat_to_string_inj: "nat_to_string n = nat_to_string m \<Longrightarrow> n = m"
proof (induction n arbitrary: m rule: nat_to_string.induct)
  case (1 n)
  show ?case
  proof (cases "n < 10")
    case small_n: True
    show ?thesis
    proof (cases "m < 10")
      case True
      with small_n "1.prems" show ?thesis
        by (simp add: nat_to_string.simps digit_char_inj)
    next
      case False
      with small_n "1.prems" have "nat_to_string (m div 10) = []"
        by (simp add: nat_to_string.simps [of n] nat_to_string.simps [of m])
      then show ?thesis by (simp add: nat_to_string_nonempty)
    qed
  next
    case big_n: False
    show ?thesis
    proof (cases "m < 10")
      case True
      with big_n "1.prems" have "nat_to_string (n div 10) = []"
        by (simp add: nat_to_string.simps [of n] nat_to_string.simps [of m])
      then show ?thesis by (simp add: nat_to_string_nonempty)
    next
      case False
      with big_n "1.prems"
      have front: "nat_to_string (n div 10) = nat_to_string (m div 10)"
        and units: "digit_char (n mod 10) = digit_char (m mod 10)"
        by (simp_all add: nat_to_string.simps [of n] nat_to_string.simps [of m])
      from "1.IH" [OF big_n front] have "n div 10 = m div 10" .
      moreover from units have "n mod 10 = m mod 10"
        by (intro digit_char_inj) simp_all
      ultimately show ?thesis
        by (metis div_mult_mod_eq)
    qed
  qed
qed

lemma suffixed_inj: "suffixed c j = suffixed c k \<Longrightarrow> j = k"
  by (simp add: suffixed_def nat_to_string_inj)

lemma finite_taken_suffixes: "finite {k. slug_taken ss (suffixed c k)}"
proof -
  have "{k. slug_taken ss (suffixed c k)} = suffixed c -` set (map slug ss)"
    by (auto simp: slug_taken_def list_ex_iff image_iff) metis
  moreover have "inj (suffixed c)"
    by (rule injI) (rule suffixed_inj)
  ultimately show ?thesis
    by (simp add: finite_vimageI)
qed

definition pending_suffixes :: "site list \<Rightarrow> string \<Rightarrow> nat \<Rightarrow> nat set" where
  \<comment> \<open>The suffixes from \<open>counter\<close> on whose slug is already in the user's site list.\<close>
  "pending_suffixes ss c counter = {k. counter \<le> k \<and> slug_taken ss (suffixed c k)}"

lemma finite_pending_suffixes: "finite (pending_suffixes ss c counter)"
  by (rule finite_subset [OF _ finite_taken_suffixes [of ss c]]) (auto simp: pending_suffixes_def)

lemma pending_suffixes_step:
  "pending_suffixes ss c counter =
     (if slug_taken ss (suffixed c counter)
      then insert counter (pending_suffixes ss c (Suc counter))
      else pending_suffixes ss c (Suc counter))"
  by (auto simp: pending_suffixes_def Suc_le_eq le_less)

lemma card_pending_suffixes_step:
  "card (pending_suffixes ss c counter) =
     card (pending_suffixes ss c (Suc counter)) + (if slug_taken ss (suffixed c counter) then 1 else 0)"
proof -
  have "counter \<notin> pending_suffixes ss c (Suc counter)"
    by (simp add: pending_suffixes_def)
  then show ?thesis
    by (subst pending_suffixes_step) (simp add: finite_pending_suffixes)
qed

function unique_slug_loop :: "site list \<Rightarrow> string \<Rightarrow> string \<Rightarrow> nat \<Rightarrow> string" where
  \<comment> \<open>\<^verbatim>\<open>while (user.sites.some(site => site.slug === finalSlug))
         { finalSlug = `${slug}-${counter}`; counter++; }\<close>
      with the loop variables \<open>finalSlug\<close> and \<open>counter\<close> as arguments.\<close>
  "unique_slug_loop ss candidate finalSlug counter =
     (if slug_taken ss finalSlug
      then unique_slug_loop ss candidate (suffixed candidate counter) (counter + 1)
      else finalSlug)"
  by pat_completeness auto
termination
proof (relation "measure (\<lambda>(ss, candidate, finalSlug, counter).
    card (pending_suffixes ss candidate counter) + (if slug_taken ss finalSlug then 1 else 0))")
  show "wf (measure (\<lambda>(ss, candidate, finalSlug, counter).
    card (pending_suffixes ss candidate counter) + (if slug_taken ss finalSlug then 1 else 0)))"
    by simp
next
  fix ss candidate finalSlug and counter :: nat
  assume "slug_taken ss finalSlug"
  then show "((ss, candidate, suffixed candidate counter, counter + 1), ss, candidate, finalSlug, counter)
    \<in> measure (\<lambda>(ss, candidate, finalSlug, counter).
        card (pending_suffixes ss candidate counter) + (if slug_taken ss finalSlug then 1 else 0))"
    using card_pending_suffixes_step [of ss candidate counter] by simp
qed

declare unique_slug_loop.simps [simp del]

definition unique_slug :: "site list \<Rightarrow> string \<Rightarrow> string" where
  \<comment> \<open>\<^verbatim>\<open>let finalSlug = slug; let counter = 1; while ...\<close>\<close>
  "unique_slug ss candidate = unique_slug_loop ss candidate candidate 1"

section \<open>Weaving the optional assets into the document\<close>

fun find_first :: "string \<Rightarrow> string \<Rightarrow> (string \<times> string) option" where
  \<comment> \<open>The first occurrence of a pattern in a string: the text before it and the text
      after it.\<close>
  "find_first pat [] = (if pat = [] then Some ([], []) else None)"
| "find_first pat (c # cs) =
     (if prefix pat (c # cs) then Some ([], drop (length pat) (c # cs))
      else map_option (\<lambda>(preceding, following). (c # preceding, following)) (find_first pat cs))"

fun getSubstitution :: "string \<Rightarrow> string \<Rightarrow> string \<Rightarrow> string \<Rightarrow> string" where
  \<comment> \<open>ECMAScript \<^verbatim>\<open>GetSubstitution\<close> for a string pattern (no capture groups), applied to
      the replacement text: \<^verbatim>\<open>$$\<close> is a dollar sign, \<^verbatim>\<open>$&\<close> the matched text,
      \<^verbatim>\<open>$`\<close> (character 0x60) the text before the match, \<^verbatim>\<open>$'\<close> (character 0x27)
      the text after it; every other character, and a dollar sign followed by anything
      else, stands for itself.\<close>
  "getSubstitution matched preceding following [] = []"
| "getSubstitution matched preceding following [c] = [c]"
| "getSubstitution matched preceding following (c # d # r) =
     (if c \<noteq> CHR ''$'' then c # getSubstitution matched preceding following (d # r)
      else if d = CHR ''$'' then CHR ''$'' # getSubstitution matched preceding following r
      else if d = CHR ''&'' then matched @ getSubstitution matched preceding following r
      else if d = CHR 0x60 then preceding @ getSubstitution matched preceding following r
      else if d = CHR 0x27 then following @ getSubstitution matched preceding following r
      else c # getSubstitution matched preceding following (d # r))"

definition replace_first :: "string \<Rightarrow> string \<Rightarrow> string \<Rightarrow> string" where
  \<comment> \<open>\<^verbatim>\<open>str.replace(pattern, replacement)\<close> with a string pattern: only the first
      occurrence is replaced, and the replacement text goes through
      \<^const>\<open>getSubstitution\<close>.\<close>
  "replace_first str pat replacement =
     (case find_first pat str of
        None \<Rightarrow> str
      | Some (preceding, following) \<Rightarrow> preceding @ getSubstitution pat preceding following replacement @ following)"

definition favicon_link :: "string \<Rightarrow> string" where
  \<open>favicon_link icon =
     ''<head>'' @ [CHR 0x0A] @ ''    <link rel="icon" href="data:image/x-icon;base64,'' @ icon @ ''">''\<close>

definition weave :: "string \<Rightarrow> string option \<Rightarrow> string option \<Rightarrow> string option \<Rightarrow> string" where
  \<comment> \<open>The three \<^verbatim>\<open>if (...) { fullHtml = fullHtml.replace(...) }\<close> statements, in the
      source's order: favicon, css, js.\<close>
  "weave html' favicon' css' js' =
     (let fullHtml = html';
          fullHtml = (if truthy favicon'
                      then replace_first fullHtml ''<head>'' (favicon_link (the favicon'))
                      else fullHtml);
          fullHtml = (if truthy css'
                      then replace_first fullHtml ''</head>'' (''<style>'' @ the css' @ ''</style></head>'')
                      else fullHtml);
          fullHtml = (if truthy js'
                      then replace_first fullHtml ''</body>'' (''<script>'' @ the js' @ ''</script></body>'')
                      else fullHtml)
      in fullHtml)"

section \<open>Publishing a site\<close>

record upload_body =
  html :: "string option"
  css :: "string option"
  js :: "string option"
  siteName :: "string option"
  siteSlug :: "string option"
  favicon :: "string option"
  preferredDomain :: "string option"

record upload_env =
  read_users_ok :: bool \<comment> \<open>reading and parsing \<^verbatim>\<open>users.json\<close> succeeds\<close>
  mkdir_ok :: bool \<comment> \<open>creating the site directory succeeds\<close>
  write_html_ok :: bool \<comment> \<open>writing \<^verbatim>\<open>index.html\<close> succeeds\<close>
  write_users_ok :: bool \<comment> \<open>writing \<^verbatim>\<open>users.json\<close> succeeds\<close>
  site_uuid :: string \<comment> \<open>\<^verbatim>\<open>crypto.randomUUID()\<close>\<close>
  created_now :: string \<comment> \<open>the first \<^verbatim>\<open>new Date().toISOString()\<close>\<close>
  updated_now :: string \<comment> \<open>the second \<^verbatim>\<open>new Date().toISOString()\<close>\<close>

record upload_response =
  res_slug :: string
  res_url :: "string option" \<comment> \<open>\<^verbatim>\<open>urls[selectedDomain]\<close>\<close>
  res_urls :: "(string \<times> string) list"
  res_domain :: string
  res_primaryUrl :: "string option" \<comment> \<open>\<^verbatim>\<open>urls[PRIMARY_DOMAIN]\<close>\<close>
  res_site :: site

definition upload ::
  "upload_env \<Rightarrow> string \<Rightarrow> upload_body \<Rightarrow> store \<Rightarrow> (error + upload_response) \<times> store" where
  \<comment> \<open>\<^verbatim>\<open>POST /api/upload\<close> for the authenticated user id \<^verbatim>\<open>req.user.userId\<close>. Every
      exception thrown in the handler's \<^verbatim>\<open>try\<close> block ends in its \<^verbatim>\<open>catch\<close>, which
      answers 500; the store keeps what was written before the exception.\<close>
  "upload env userId body st =
     (if \<not> truthy (html body) then (Inl MissingContent, st)
      else if \<not> read_users_ok env then (Inl UserDataNotFound, st)
      else case map_of (users st) userId of
        None \<Rightarrow> (Inl UserNotFound, st)
      | Some u \<Rightarrow>
         (case candidate_slug (siteSlug body) (siteName body) of
            Inl e \<Rightarrow> (Inl (UploadFailed e), st)
          | Inr candidate \<Rightarrow>
             if \<not> validateSubdomain candidate then (Inl InvalidSlug, st)
             else
               let finalSlug = unique_slug (sites u) candidate;
                   userSubdomain = subdomain u;
                   siteDir = [userSubdomain, finalSlug]
               in if \<not> mkdir_ok env then (Inl (UploadFailed IOError), st)
               else
                 let st1 = st\<lparr>dirs := List.insert siteDir (dirs st)\<rparr>;
                     fullHtml = weave (the (html body)) (favicon body) (css body) (js body)
                 in if \<not> write_html_ok env then (Inl (UploadFailed IOError), st1)
                 else
                   let st2 = st1\<lparr>files := AList.update (siteDir @ [''index.html'']) fullHtml (files st1)\<rparr>;
                       urls' = generateSiteUrls SUPPORTED_DOMAINS userSubdomain finalSlug;
                       selectedDomain = js_or (preferredDomain body) PRIMARY_DOMAIN;
                       site' = \<lparr>site_id = site_uuid env,
                                name = js_or (siteName body) ''Untitled Site'',
                                slug = finalSlug,
                                domain = selectedDomain,
                                urls = urls',
                                createdAt = created_now env,
                                updatedAt = updated_now env,
                                visits = 0,
                                published = True\<rparr>;
                       u' = u\<lparr>sites := sites u @ [site']\<rparr>
                   in if \<not> write_users_ok env then (Inl (UploadFailed IOError), st2)
                   else
                     (Inr \<lparr>res_slug = finalSlug,
                           res_url = map_of urls' selectedDomain,
                           res_urls = urls',
                           res_domain = selectedDomain,
                           res_primaryUrl = map_of urls' PRIMARY_DOMAIN,
                           res_site = site'\<rparr>,
                      st2\<lparr>users := AList.update userId u' (users st2)\<rparr>)))"

section \<open>Reachable stores\<close>

definition initial_store :: store where
  \<comment> \<open>\<^verbatim>\<open>ensureDirectories\<close> creates \<^verbatim>\<open>users.json\<close> holding the empty object.\<close>
  "initial_store = \<lparr>users = [], dirs = [], files = []\<rparr>"

inductive reachable :: "store \<Rightarrow> bool" where
  reachable_initial: "reachable initial_store"
| reachable_register:
    "reachable st \<Longrightarrow> draws_in_range (reg_draws env) \<Longrightarrow> reachable (snd (register env body st))"
| reachable_upload:
    "reachable st \<Longrightarrow> reachable (snd (upload env userId body st))"

definition io_succeeds :: "upload_env \<Rightarrow> bool" where
  \<comment> \<open>No file-system operation of one upload request fails.\<close>
  "io_succeeds env = (read_users_ok env \<and> mkdir_ok env \<and> write_html_ok env \<and> write_users_ok env)"

section \<open>The run of the test script\<close>

text \<open>
  \<^verbatim>\<open>test-upload.js\<close> registers the user \<^verbatim>\<open>uploadtest\<close> and uploads one site. The values
  the environment supplies (identifiers, timestamps, hash, random draws) are fixed here.
\<close>

definition test_register_body :: register_body where
  "test_register_body =
     \<lparr>reg_username = Some ''uploadtest'', reg_email = Some ''uploadtest@example.com'',
      reg_password = Some ''testpass123''\<rparr>"

definition test_register_env :: register_env where
  "test_register_env =
     \<lparr>reg_read_users_ok = True, reg_hash = ''$2b$10$hash'', reg_uuid = ''user-1'',
      reg_now = ''2024-01-01T00:00:00.000Z'',
      reg_draws = \<lparr>draw_number = 0, draw_adjective = 0, draw_noun = 0\<rparr>,
      reg_write_users_ok = True, reg_mkdir_ok = True\<rparr>"

definition test_store :: store where
  "test_store = snd (register test_register_env test_register_body initial_store)"

definition test_upload_body :: upload_body where
  \<open>test_upload_body =
     \<lparr>html = Some (''<!DOCTYPE html><html><head><title>Test Upload</title></head>'' @
        ''<body><h1>Upload Test Success!</h1><p>This site was uploaded successfully.</p></body></html>''),
      css = Some ''body { font-family: Arial, sans-serif; background: #f0f0f0; } h1 { color: #667eea; }'',
      js = Some ''console.log("Upload test successful!");'',
      siteName = Some ''Upload Test Site'',
      siteSlug = Some ''upload-test'',
      favicon = None,
      preferredDomain = Some ''ntandostore''\<rparr>\<close>

definition test_upload_env :: upload_env where
  "test_upload_env =
     \<lparr>read_users_ok = True, mkdir_ok = True, write_html_ok = True, write_users_ok = True,
      site_uuid = ''site-1'', created_now = ''2024-01-01T00:00:01.000Z'',
      updated_now = ''2024-01-01T00:00:01.001Z''\<rparr>"



definition edited_store :: store where
  \<comment> \<open>A \<^verbatim>\<open>users.json\<close> written by hand, not by the handlers: its one user already holds
      the subdomain that the test script's registration will generate.\<close>
  "edited_store =
     \<lparr>users = [(''user-0'', \<lparr>user_id = ''user-0'', username = ''legacy'',
          email = ''legacy@example.com'', password = ''$2b$10$old'',
          user_createdAt = ''2023-01-01T00:00:00.000Z'', subdomain = ''uploadtest-quicksite1'',
          sites = []\<rparr>)],
      dirs = [[''uploadtest-quicksite1'']], files = []\<rparr>"

section \<open>Slug normalization in the words of the specification\<close>

text \<open>
  The specification describes the normalization of a raw name as: lowercase, replace
  every maximal run of characters outside \<^verbatim>\<open>[a-z0-9]\<close> with a single hyphen, strip
  leading and trailing hyphens. The definitions of this section follow these words; they
  are compared below with \<^const>\<open>derive_slug\<close>, which follows the source.
\<close>

function runs :: "('a \<Rightarrow> bool) \<Rightarrow> 'a list \<Rightarrow> 'a list list" where
  \<comment> \<open>The maximal runs of a list: it is cut wherever the value of \<open>P\<close> changes.\<close>
  "runs P [] = []"
| "runs P (x # xs) =
     (x # takeWhile (\<lambda>y. P y = P x) xs) # runs P (dropWhile (\<lambda>y. P y = P x) xs)"
  by pat_completeness auto
termination
  by (relation "measure (length \<circ> snd)") (auto intro: le_imp_less_Suc length_dropWhile_le)

definition spec_replace_runs :: "string \<Rightarrow> string" where
  \<comment> \<open>every maximal run of characters outside \<^verbatim>\<open>[a-z0-9]\<close> replaced by a single hyphen\<close>
  "spec_replace_runs s =
     concat (map (\<lambda>r. if is_a_z_0_9 (hd r) then r else ''-'') (runs is_a_z_0_9 s))"

definition spec_strip_hyphens :: "string \<Rightarrow> string" where
  \<comment> \<open>leading and trailing hyphens stripped\<close>
  "spec_strip_hyphens s =
     rev (dropWhile (\<lambda>c. c = CHR ''-'') (rev (dropWhile (\<lambda>c. c = CHR ''-'') s)))"

definition spec_normalize :: "string \<Rightarrow> string" where
  "spec_normalize rawName = spec_strip_hyphens (spec_replace_runs (toLowerCase rawName))"

section \<open>Invariants used in the proofs\<close>

definition hyphens_apart :: "string \<Rightarrow> bool" where
  \<comment> \<open>No two hyphens are adjacent.\<close>
  "hyphens_apart s = successively (\<lambda>x y. \<not> (x = CHR ''-'' \<and> y = CHR ''-'')) s"

definition subdomain_generated :: "user \<Rightarrow> bool" where
  \<comment> \<open>The subdomain is the username, a hyphen, and a suffix without hyphen.\<close>
  "subdomain_generated u = (\<exists>t. subdomain u = username u @ ''-'' @ t \<and> CHR ''-'' \<notin> set t)"

definition users_inv :: "(string \<times> user) list \<Rightarrow> bool" where
  "users_inv al =
     (distinct (map fst al) \<and> distinct (map (username \<circ> snd) al) \<and>
      (\<forall>p \<in> set al. subdomain_generated (snd p)))"

section \<open>Basic facts about the model\<close>

lemma truthy_Some [simp]: "truthy (Some s) = (s \<noteq> [])"
  by (simp add: truthy_def)

lemma truthy_None [simp]: "truthy None = False"
  by (simp add: truthy_def)

lemma truthyE: "truthy v \<Longrightarrow> (\<And>s. v = Some s \<Longrightarrow> s \<noteq> [] \<Longrightarrow> P) \<Longrightarrow> P"
  by (cases v) simp_all

lemma slug_taken_iff: "slug_taken ss x \<longleftrightarrow> x \<in> set (map slug ss)"
  by (auto simp: slug_taken_def list_ex_iff)

lemma unique_slug_loop_free:
  "\<not> slug_taken ss finalSlug \<Longrightarrow> unique_slug_loop ss c finalSlug counter = finalSlug"
  by (subst unique_slug_loop.simps) simp

lemma unique_slug_loop_taken:
  "slug_taken ss finalSlug \<Longrightarrow>
     unique_slug_loop ss c finalSlug counter =
       unique_slug_loop ss c (suffixed c counter) (counter + 1)"
  by (subst unique_slug_loop.simps) simp

lemma unique_slug_loop_not_taken: "\<not> slug_taken ss (unique_slug_loop ss c finalSlug counter)"
proof (induction ss c finalSlug counter rule: unique_slug_loop.induct)
  case (1 ss c finalSlug counter)
  show ?case
  proof (cases "slug_taken ss finalSlug")
    case True
    with "1.IH" show ?thesis by (simp add: unique_slug_loop_taken)
  next
    case False
    then show ?thesis by (simp add: unique_slug_loop_free)
  qed
qed

lemma unique_slug_loop_least:
  "finalSlug = suffixed c n \<Longrightarrow> counter = Suc n \<Longrightarrow>
     unique_slug_loop ss c finalSlug counter =
       suffixed c (LEAST k. n \<le> k \<and> \<not> slug_taken ss (suffixed c k))"
proof (induction ss c finalSlug counter arbitrary: n rule: unique_slug_loop.induct)
  case (1 ss c finalSlug counter)
  show ?case
  proof (cases "slug_taken ss finalSlug")
    case True
    with "1.prems" have same:
      "(\<lambda>k. n \<le> k \<and> \<not> slug_taken ss (suffixed c k)) =
       (\<lambda>k. Suc n \<le> k \<and> \<not> slug_taken ss (suffixed c k))"
      by (auto simp: fun_eq_iff Suc_le_eq le_less)
    have "unique_slug_loop ss c (suffixed c counter) (counter + 1) =
        suffixed c (LEAST k. counter \<le> k \<and> \<not> slug_taken ss (suffixed c k))"
      by (rule "1.IH" [OF True]) simp_all
    with True "1.prems" have
      "unique_slug_loop ss c finalSlug counter =
         suffixed c (LEAST k. Suc n \<le> k \<and> \<not> slug_taken ss (suffixed c k))"
      by (simp add: unique_slug_loop_taken)
    with same show ?thesis by simp
  next
    case False
    with "1.prems" have "(LEAST k. n \<le> k \<and> \<not> slug_taken ss (suffixed c k)) = n"
      by (intro Least_equality) simp_all
    with False "1.prems" show ?thesis by (simp add: unique_slug_loop_free)
  qed
qed

lemma unique_slug_free: "\<not> slug_taken ss c \<Longrightarrow> unique_slug ss c = c"
  by (simp add: unique_slug_def unique_slug_loop_free)

lemma unique_slug_taken:
  "slug_taken ss c \<Longrightarrow>
     unique_slug ss c = suffixed c (LEAST k. 0 < k \<and> \<not> slug_taken ss (suffixed c k))"
  by (simp add: unique_slug_def unique_slug_loop_taken unique_slug_loop_least [of _ _ 1] Suc_le_eq)

lemma suffixed_1: "suffixed c (Suc 0) = c @ ''-1''"
  by (simp add: suffixed_def nat_to_string.simps [of "Suc 0"] digit_char_def digits_def)

lemma unique_slug_first_suffix:
  "slug_taken ss c \<Longrightarrow> \<not> slug_taken ss (c @ ''-1'') \<Longrightarrow> unique_slug ss c = c @ ''-1''"
  by (simp add: unique_slug_def unique_slug_loop_taken unique_slug_loop_free suffixed_1)

lemma upload_InrD:
  assumes "upload env userId body st = (Inr r, st')"
  shows "\<exists>u c. truthy (html body) \<and> io_succeeds env \<and> map_of (users st) userId = Some u \<and>
      candidate_slug (siteSlug body) (siteName body) = Inr c \<and> validateSubdomain c \<and>
      res_slug r = unique_slug (sites u) c \<and>
      res_urls r = generateSiteUrls SUPPORTED_DOMAINS (subdomain u) (unique_slug (sites u) c) \<and>
      res_domain r = js_or (preferredDomain body) PRIMARY_DOMAIN \<and>
      res_site r = \<lparr>site_id = site_uuid env, name = js_or (siteName body) ''Untitled Site'',
          slug = unique_slug (sites u) c, domain = js_or (preferredDomain body) PRIMARY_DOMAIN,
          urls = generateSiteUrls SUPPORTED_DOMAINS (subdomain u) (unique_slug (sites u) c),
          createdAt = created_now env, updatedAt = updated_now env, visits = 0, published = True\<rparr> \<and>
      users st' = AList.update userId (u\<lparr>sites := sites u @ [res_site r]\<rparr>) (users st) \<and>
      dirs st' = List.insert [subdomain u, unique_slug (sites u) c] (dirs st) \<and>
      files st' = AList.update [subdomain u, unique_slug (sites u) c, ''index.html'']
          (weave (the (html body)) (favicon body) (css body) (js body)) (files st)"
  using assms
  by (auto simp: upload_def io_succeeds_def Let_def split: if_splits option.splits sum.splits)

lemma upload_succeeds:
  assumes "truthy (html body)" and "io_succeeds env" and "map_of (users st) userId = Some u"
    and "candidate_slug (siteSlug body) (siteName body) = Inr c" and "validateSubdomain c"
  shows "\<exists>r st'. upload env userId body st = (Inr r, st')"
  using assms by (simp add: upload_def io_succeeds_def Let_def)

lemma upload_ok_response:
  assumes "truthy (html body)" and "io_succeeds env" and "map_of (users st) userId = Some u"
    and "candidate_slug (siteSlug body) (siteName body) = Inr c" and "validateSubdomain c"
  shows "map_sum id res_slug (fst (upload env userId body st)) = Inr (unique_slug (sites u) c)"
    and "map_sum id res_domain (fst (upload env userId body st)) =
      Inr (js_or (preferredDomain body) PRIMARY_DOMAIN)"
    and "map_sum id (domain \<circ> res_site) (fst (upload env userId body st)) =
      Inr (js_or (preferredDomain body) PRIMARY_DOMAIN)"
    and "map_sum id (slug \<circ> res_site) (fst (upload env userId body st)) =
      Inr (unique_slug (sites u) c)"
  using assms by (simp_all add: upload_def io_succeeds_def Let_def)

lemma upload_ok_store:
  assumes "truthy (html body)" and "io_succeeds env" and "map_of (users st) userId = Some u"
    and "candidate_slug (siteSlug body) (siteName body) = Inr c" and "validateSubdomain c"
  shows "map_of (users (snd (upload env userId body st))) userId =
      Some (u\<lparr>sites := sites u @
        [\<lparr>site_id = site_uuid env, name = js_or (siteName body) ''Untitled Site'',
          slug = unique_slug (sites u) c, domain = js_or (preferredDomain body) PRIMARY_DOMAIN,
          urls = generateSiteUrls SUPPORTED_DOMAINS (subdomain u) (unique_slug (sites u) c),
          createdAt = created_now env, updatedAt = updated_now env, visits = 0,
          published = True\<rparr>]\<rparr>)"
    and "map_of (files (snd (upload env userId body st)))
        [subdomain u, unique_slug (sites u) c, ''index.html''] =
      Some (weave (the (html body)) (favicon body) (css body) (js body))"
  using assms by (simp_all add: upload_def io_succeeds_def Let_def update_conv')

lemma upload_InlD:
  assumes "upload env userId body st = (Inl e, st')"
  shows "users st' = users st"
  using assms
  by (auto simp: upload_def Let_def split: if_splits option.splits sum.splits)

lemma generateSiteUrls_foldl_map_of:
  "map_of (foldl (\<lambda>urls domain. AList.update domain (f domain) urls) acc ds) d =
     (if d \<in> set ds then Some (f d) else map_of acc d)"
  by (induction ds arbitrary: acc) (simp_all add: update_conv')

lemma generateSiteUrls_foldl_distinct:
  "distinct (map fst acc) \<Longrightarrow>
     distinct (map fst (foldl (\<lambda>urls domain. AList.update domain (f domain) urls) acc ds))"
  by (induction ds arbitrary: acc) (simp_all add: distinct_update)

lemma generateSiteUrls_foldl_keys:
  "fst ` set (foldl (\<lambda>urls domain. AList.update domain (f domain) urls) acc ds) =
     fst ` set acc \<union> set ds"
  unfolding dom_map_of_conv_image_fst [symmetric]
  by (auto simp: dom_def generateSiteUrls_foldl_map_of)

lemmas validate_defs =
  validateSubdomain_def lower_letters_def upper_letters_def digits_def startsWith_def endsWith_def

lemma candidate_slug_explicit:
  "siteSlug' = Some s \<Longrightarrow> s \<noteq> [] \<Longrightarrow> candidate_slug siteSlug' siteName' = Inr s"
  by (simp add: candidate_slug_def)

lemmas username_defs =
  validateUsername_def toLowerCase_def toLowerCase_char_def lower_letters_def upper_letters_def
  digits_def startsWith_def endsWith_def

lemma nat_to_string_digit: "n < 10 \<Longrightarrow> nat_to_string n = [digit_char n]"
  by (subst nat_to_string.simps) simp

lemma test_store_users:
  "users test_store =
     [(''user-1'', \<lparr>user_id = ''user-1'', username = ''uploadtest'',
        email = ''uploadtest@example.com'', password = ''$2b$10$hash'',
        user_createdAt = ''2024-01-01T00:00:00.000Z'', subdomain = ''uploadtest-quicksite1'',
        sites = []\<rparr>)]"
  by (simp add: test_store_def register_def test_register_env_def test_register_body_def
      initial_store_def username_defs generateSubdomain_def element_at_def adjectives_def
      nouns_def nat_to_string_digit digit_char_def Let_def)

lemma test_store_user:
  "map_of (users test_store) ''user-1'' =
     Some \<lparr>user_id = ''user-1'', username = ''uploadtest'',
        email = ''uploadtest@example.com'', password = ''$2b$10$hash'',
        user_createdAt = ''2024-01-01T00:00:00.000Z'', subdomain = ''uploadtest-quicksite1'',
        sites = []\<rparr>"
  by (simp add: test_store_users)

lemma test_store_rest: "dirs test_store = [[''uploadtest-quicksite1'']] \<and> files test_store = []"
  by (simp add: test_store_def register_def test_register_env_def test_register_body_def
      initial_store_def username_defs generateSubdomain_def element_at_def adjectives_def
      nouns_def nat_to_string_digit digit_char_def Let_def)

lemma test_upload_env_ok: "io_succeeds test_upload_env"
  by (simp add: io_succeeds_def test_upload_env_def)

section \<open>The source's normalization and the specification's\<close>

lemma hyphen_not_a_z_0_9: "\<not> is_a_z_0_9 (CHR ''-'')"
  by (simp add: is_a_z_0_9_def lower_letters_def digits_def)

lemma replace_non_alnum_runs_takeWhile:
  "replace_non_alnum_runs s =
     takeWhile is_a_z_0_9 s @ replace_non_alnum_runs (dropWhile is_a_z_0_9 s)"
  by (induction s) simp_all

lemma replace_runs_refines: "replace_non_alnum_runs s = spec_replace_runs s"
proof (induction s rule: length_induct)
  case (1 s)
  show ?case
  proof (cases s)
    case Nil
    then show ?thesis by (simp add: spec_replace_runs_def)
  next
    case (Cons c cs)
    show ?thesis
    proof (cases "is_a_z_0_9 c")
      case True
      have shorter: "length (dropWhile is_a_z_0_9 cs) < length s"
        using Cons by (simp add: le_imp_less_Suc length_dropWhile_le)
      have "spec_replace_runs s =
          c # takeWhile is_a_z_0_9 cs @ spec_replace_runs (dropWhile is_a_z_0_9 cs)"
        using Cons True by (simp add: spec_replace_runs_def)
      also have "\<dots> = c # takeWhile is_a_z_0_9 cs @ replace_non_alnum_runs (dropWhile is_a_z_0_9 cs)"
        using "1.IH" shorter by simp
      also have "\<dots> = c # replace_non_alnum_runs cs"
        using replace_non_alnum_runs_takeWhile [of cs] by simp
      finally show ?thesis
        using Cons True by simp
    next
      case False
      have shorter: "length (dropWhile (\<lambda>d. \<not> is_a_z_0_9 d) cs) < length s"
        using Cons by (simp add: le_imp_less_Suc length_dropWhile_le)
      have "spec_replace_runs s =
          CHR ''-'' # spec_replace_runs (dropWhile (\<lambda>d. \<not> is_a_z_0_9 d) cs)"
        using Cons False by (simp add: spec_replace_runs_def)
      also have "\<dots> = CHR ''-'' # replace_non_alnum_runs (dropWhile (\<lambda>d. \<not> is_a_z_0_9 d) cs)"
        using "1.IH" shorter by simp
      finally show ?thesis
        using Cons False by simp
    qed
  qed
qed

lemma hyphens_apart_rev: "hyphens_apart (rev s) = hyphens_apart s"
proof -
  have "(\<lambda>x y. \<not> (y = CHR ''-'' \<and> x = CHR ''-'')) = (\<lambda>x y. \<not> (x = CHR ''-'' \<and> y = CHR ''-''))"
    by (auto simp: fun_eq_iff)
  then show ?thesis
    by (simp only: hyphens_apart_def successively_rev)
qed

lemma hyphens_apart_tl: "hyphens_apart s \<Longrightarrow> hyphens_apart (tl s)"
  by (cases s) (auto simp: hyphens_apart_def successively_Cons)

lemma replace_non_alnum_runs_head:
  "s \<noteq> [] \<Longrightarrow> is_a_z_0_9 (hd s) \<Longrightarrow> hd (replace_non_alnum_runs s) = hd s"
  by (cases s) simp_all

lemma replace_non_alnum_runs_Nil: "replace_non_alnum_runs s = [] \<longleftrightarrow> s = []"
  by (cases s) simp_all

lemma replace_non_alnum_runs_apart: "hyphens_apart (replace_non_alnum_runs s)"
proof (induction s rule: replace_non_alnum_runs.induct)
  case 1
  show ?case by (simp add: hyphens_apart_def)
next
  case (2 c cs)
  show ?case
  proof (cases "is_a_z_0_9 c")
    case True
    then have "c \<noteq> CHR ''-''"
      using hyphen_not_a_z_0_9 by auto
    with True "2.IH"(1) show ?thesis
      by (simp add: hyphens_apart_def successively_Cons)
  next
    case False
    let ?rest = "dropWhile (\<lambda>d. \<not> is_a_z_0_9 d) cs"
    have "hd (replace_non_alnum_runs ?rest) \<noteq> CHR ''-''" if "?rest \<noteq> []"
    proof -
      from that have "is_a_z_0_9 (hd ?rest)"
        using hd_dropWhile [of "\<lambda>d. \<not> is_a_z_0_9 d" cs] by simp
      with that show ?thesis
        using hyphen_not_a_z_0_9 by (auto simp: replace_non_alnum_runs_head)
    qed
    with False "2.IH"(2) show ?thesis
      by (auto simp: hyphens_apart_def successively_Cons replace_non_alnum_runs_Nil)
  qed
qed

lemma dropWhile_hyphen_apart:
  "hyphens_apart s \<Longrightarrow>
     dropWhile (\<lambda>c. c = CHR ''-'') s = (if startsWith s ''-'' then tl s else s)"
  by (cases s; cases "tl s") (auto simp: hyphens_apart_def startsWith_def)

lemma strip_edge_hyphens_refines:
  assumes "hyphens_apart s"
  shows "strip_edge_hyphens s = spec_strip_hyphens s"
proof -
  let ?s1 = "dropWhile (\<lambda>c. c = CHR ''-'') s"
  have front: "(if startsWith s ''-'' then tl s else s) = ?s1"
    using assms by (simp add: dropWhile_hyphen_apart)
  have "hyphens_apart ?s1"
    using assms by (simp add: dropWhile_hyphen_apart hyphens_apart_tl)
  then have "hyphens_apart (rev ?s1)"
    by (simp add: hyphens_apart_rev)
  then have "dropWhile (\<lambda>c. c = CHR ''-'') (rev ?s1) =
      (if startsWith (rev ?s1) ''-'' then tl (rev ?s1) else rev ?s1)"
    by (rule dropWhile_hyphen_apart)
  moreover have "rev (tl (rev ?s1)) = butlast ?s1"
    using butlast_rev [of "rev ?s1"] by simp
  ultimately have "spec_strip_hyphens s = (if endsWith ?s1 ''-'' then butlast ?s1 else ?s1)"
    by (simp add: spec_strip_hyphens_def startsWith_def endsWith_def)
  with front show ?thesis
    by (simp add: strip_edge_hyphens_def Let_def)
qed

lemma normalize_refines:
  "strip_edge_hyphens (replace_non_alnum_runs (toLowerCase n)) = spec_normalize n"
  by (simp add: spec_normalize_def replace_runs_refines [symmetric]
      strip_edge_hyphens_refines replace_non_alnum_runs_apart)

lemma derive_slug_Some:
  "derive_slug (Some n) = Inr (if spec_normalize n = [] then ''site'' else spec_normalize n)"
  by (simp add: derive_slug_def js_or_def normalize_refines)
section \<open>Properties of the URL mapping\<close>

text \<open>
  C7. For every subdomain identity, slug and domain list, the URL mapping built by
  \<^const>\<open>generateSiteUrls\<close> has exactly one entry per domain of the list (its keys are
  distinct and are exactly the domains of the list), the entry for a domain \<open>d\<close> is the
  string \<^verbatim>\<open>https://{subdomain}-{slug}.{d}\<close>, and for subdomain \<^verbatim>\<open>alice-quickweb42\<close>,
  slug \<^verbatim>\<open>my-page\<close> and the domains \<^verbatim>\<open>example.com\<close>, \<^verbatim>\<open>example.dev\<close> the mapping is the
  one the specification gives.
\<close>

theorem generateSiteUrls_one_entry_per_domain:
  "distinct (map fst (generateSiteUrls ds sub sg)) \<and>
   fst ` set (generateSiteUrls ds sub sg) = set ds \<and>
   (\<forall>d \<in> set ds. map_of (generateSiteUrls ds sub sg) d =
       Some (''https://'' @ sub @ ''-'' @ sg @ ''.'' @ d)) \<and>
   generateSiteUrls [''example.com'', ''example.dev''] ''alice-quickweb42'' ''my-page'' =
     [(''example.com'', ''https://alice-quickweb42-my-page.example.com''),
      (''example.dev'', ''https://alice-quickweb42-my-page.example.dev'')]"
proof -
  have keys: "distinct (map fst (generateSiteUrls ds sub sg))"
    unfolding generateSiteUrls_def by (rule generateSiteUrls_foldl_distinct) simp
  have dom: "fst ` set (generateSiteUrls ds sub sg) = set ds"
    unfolding generateSiteUrls_def by (simp add: generateSiteUrls_foldl_keys)
  have entry: "\<forall>d \<in> set ds. map_of (generateSiteUrls ds sub sg) d =
      Some (''https://'' @ sub @ ''-'' @ sg @ ''.'' @ d)"
    unfolding generateSiteUrls_def by (simp add: generateSiteUrls_foldl_map_of site_url_def)
  have example:
    "generateSiteUrls [''example.com'', ''example.dev''] ''alice-quickweb42'' ''my-page'' =
       [(''example.com'', ''https://alice-quickweb42-my-page.example.com''),
        (''example.dev'', ''https://alice-quickweb42-my-page.example.dev'')]"
    by (simp add: generateSiteUrls_def site_url_def)
  from keys dom entry example show ?thesis by blast
qed

theorem generateSiteUrls_one_entry_per_domain_witness:
  "map_of (generateSiteUrls SUPPORTED_DOMAINS ''uploadtest-quicksite1'' ''upload-test'') ''ntando.dev'' =
     Some ''https://uploadtest-quicksite1-upload-test.ntando.dev'' \<and>
   length (generateSiteUrls SUPPORTED_DOMAINS ''uploadtest-quicksite1'' ''upload-test'') = 10"
proof -
  have mem: "''ntando.dev'' \<in> set SUPPORTED_DOMAINS"
    by (simp add: SUPPORTED_DOMAINS_def)
  have len: "length (generateSiteUrls SUPPORTED_DOMAINS ''uploadtest-quicksite1'' ''upload-test'') = 10"
    by (simp add: generateSiteUrls_def SUPPORTED_DOMAINS_def)
  from generateSiteUrls_one_entry_per_domain
    [of SUPPORTED_DOMAINS "''uploadtest-quicksite1''" "''upload-test''"] mem len
  show ?thesis by auto
qed


section \<open>Unique slugs\<close>

lemma publish_twice_same_slug:
  assumes b1: "truthy (html b1)" "siteSlug b1 = Some s"
    and b2: "truthy (html b2)" "siteSlug b2 = Some s"
    and io: "io_succeeds e1" "io_succeeds e2"
    and u: "map_of (users st) userId = Some u"
    and valid: "validateSubdomain s"
    and fresh: "s \<notin> set (map slug (sites u))" "s @ ''-1'' \<notin> set (map slug (sites u))"
  shows "\<exists>r1 st1 r2 st2.
      upload e1 userId b1 st = (Inr r1, st1) \<and> res_slug r1 = s \<and>
      upload e2 userId b2 st1 = (Inr r2, st2) \<and> res_slug r2 = s @ ''-1''"
proof -
  from valid have nonempty: "s \<noteq> []"
    by (auto simp: validateSubdomain_def)
  have cand1: "candidate_slug (siteSlug b1) (siteName b1) = Inr s"
    and cand2: "candidate_slug (siteSlug b2) (siteName b2) = Inr s"
    using b1 b2 nonempty by (simp_all add: candidate_slug_explicit)
  from upload_succeeds [OF b1(1) io(1) u cand1 valid]
  obtain r1 st1 where first: "upload e1 userId b1 st = (Inr r1, st1)" by blast
  from upload_InrD [OF first] u cand1
  have slug1: "res_slug r1 = unique_slug (sites u) s"
    and site1: "slug (res_site r1) = unique_slug (sites u) s"
    and users1: "users st1 = AList.update userId (u\<lparr>sites := sites u @ [res_site r1]\<rparr>) (users st)"
    by auto
  from fresh(1) have free1: "unique_slug (sites u) s = s"
    by (simp add: unique_slug_free slug_taken_iff)
  define u1 where "u1 = u\<lparr>sites := sites u @ [res_site r1]\<rparr>"
  from users1 have lookup1: "map_of (users st1) userId = Some u1"
    by (simp add: u1_def update_conv')
  from upload_succeeds [OF b2(1) io(2) lookup1 cand2 valid]
  obtain r2 st2 where second: "upload e2 userId b2 st1 = (Inr r2, st2)" by blast
  from upload_InrD [OF second] lookup1 cand2
  have slug2: "res_slug r2 = unique_slug (sites u1) s"
    by auto
  have taken: "slug_taken (sites u1) s"
    using site1 free1 by (simp add: slug_taken_iff u1_def)
  have "s @ ''-1'' \<noteq> s" by simp
  with fresh(2) site1 free1 have "\<not> slug_taken (sites u1) (s @ ''-1'')"
    by (simp add: slug_taken_iff u1_def)
  with taken have "unique_slug (sites u1) s = s @ ''-1''"
    by (rule unique_slug_first_suffix)
  with first second slug1 slug2 free1 show ?thesis by simp
qed

text \<open>
  C1. For every candidate slug \<open>c\<close> and every list of the user's existing sites, with
  \<open>S\<close> the set of their slugs: the slug returned by the uniqueness loop is not in \<open>S\<close>;
  if \<open>c\<close> is not in \<open>S\<close> the result is \<open>c\<close>; otherwise it is \<open>c\<close> with the suffix \<open>-k\<close>
  for the least positive \<open>k\<close> whose suffixed value is not in \<open>S\<close>. Two publishes in a
  row by one user who has no site with slug \<^verbatim>\<open>test\<close> or \<^verbatim>\<open>test-1\<close>, both asking for the
  slug \<^verbatim>\<open>test\<close>, return the slugs \<^verbatim>\<open>test\<close> and then \<^verbatim>\<open>test-1\<close>.
\<close>

theorem unique_slug_resolves:
  "unique_slug ss c \<notin> set (map slug ss) \<and>
   (c \<notin> set (map slug ss) \<longrightarrow> unique_slug ss c = c) \<and>
   (c \<in> set (map slug ss) \<longrightarrow>
      unique_slug ss c =
        c @ ''-'' @ nat_to_string (LEAST k. 0 < k \<and> c @ ''-'' @ nat_to_string k \<notin> set (map slug ss))) \<and>
   (truthy (html b1) \<and> siteSlug b1 = Some ''test'' \<and> truthy (html b2) \<and> siteSlug b2 = Some ''test'' \<and>
    io_succeeds e1 \<and> io_succeeds e2 \<and> map_of (users st) userId = Some u \<and>
    ''test'' \<notin> set (map slug (sites u)) \<and> ''test-1'' \<notin> set (map slug (sites u)) \<longrightarrow>
      (\<exists>r1 st1 r2 st2.
         upload e1 userId b1 st = (Inr r1, st1) \<and> res_slug r1 = ''test'' \<and>
         upload e2 userId b2 st1 = (Inr r2, st2) \<and> res_slug r2 = ''test-1''))"
proof (intro conjI impI)
  show "unique_slug ss c \<notin> set (map slug ss)"
    using unique_slug_loop_not_taken [of ss c c 1]
    by (simp add: unique_slug_def slug_taken_iff)
next
  assume "c \<notin> set (map slug ss)"
  then show "unique_slug ss c = c"
    by (simp add: unique_slug_free slug_taken_iff)
next
  assume "c \<in> set (map slug ss)"
  then have "slug_taken ss c" by (simp add: slug_taken_iff)
  from unique_slug_taken [OF this]
  show "unique_slug ss c =
      c @ ''-'' @ nat_to_string (LEAST k. 0 < k \<and> c @ ''-'' @ nat_to_string k \<notin> set (map slug ss))"
    by (simp add: suffixed_def slug_taken_iff)
next
  assume h: "truthy (html b1) \<and> siteSlug b1 = Some ''test'' \<and> truthy (html b2) \<and>
    siteSlug b2 = Some ''test'' \<and> io_succeeds e1 \<and> io_succeeds e2 \<and>
    map_of (users st) userId = Some u \<and>
    ''test'' \<notin> set (map slug (sites u)) \<and> ''test-1'' \<notin> set (map slug (sites u))"
  have valid: "validateSubdomain ''test''"
    by (simp add: validate_defs)
  from h have fresh1: "''test'' \<notin> set (map slug (sites u))"
    and fresh2: "''test'' @ ''-1'' \<notin> set (map slug (sites u))"
    by simp_all
  from h publish_twice_same_slug [of b1 "''test''" b2 e1 e2 st userId u, OF _ _ _ _ _ _ _ valid fresh1 fresh2]
  show "\<exists>r1 st1 r2 st2.
      upload e1 userId b1 st = (Inr r1, st1) \<and> res_slug r1 = ''test'' \<and>
      upload e2 userId b2 st1 = (Inr r2, st2) \<and> res_slug r2 = ''test-1''"
    by simp
qed

theorem unique_slug_resolves_witness:
  "unique_slug [] ''test'' = ''test'' \<and>
   unique_slug (sites (the (map_of (users test_store) ''user-1''))) ''upload-test'' = ''upload-test'' \<and>
   (\<exists>r1 st1 r2 st2.
      upload test_upload_env ''user-1'' (test_upload_body\<lparr>siteSlug := Some ''test''\<rparr>) test_store
        = (Inr r1, st1) \<and> res_slug r1 = ''test'' \<and>
      upload test_upload_env ''user-1'' (test_upload_body\<lparr>siteSlug := Some ''test''\<rparr>) st1
        = (Inr r2, st2) \<and> res_slug r2 = ''test-1'' \<and>
      ''test'' \<in> set (map slug (sites (the (map_of (users st1) ''user-1'')))) \<and>
      unique_slug (sites (the (map_of (users st1) ''user-1''))) ''test'' =
        ''test'' @ ''-'' @ nat_to_string (LEAST k. 0 < k \<and>
           ''test'' @ ''-'' @ nat_to_string k
             \<notin> set (map slug (sites (the (map_of (users st1) ''user-1''))))))"
proof -
  let ?b = "test_upload_body\<lparr>siteSlug := Some ''test''\<rparr>"
  have first: "unique_slug [] ''test'' = ''test''"
    using unique_slug_resolves [THEN conjunct2, THEN conjunct1, of "''test''" "[]"] by simp
  have second:
    "unique_slug (sites (the (map_of (users test_store) ''user-1''))) ''upload-test'' = ''upload-test''"
    using unique_slug_resolves [THEN conjunct2, THEN conjunct1, of "''upload-test''"
        "sites (the (map_of (users test_store) ''user-1''))"]
    by (simp add: test_store_user)
  have hyps: "truthy (html ?b) \<and> siteSlug ?b = Some ''test'' \<and> truthy (html ?b) \<and>
      siteSlug ?b = Some ''test'' \<and> io_succeeds test_upload_env \<and> io_succeeds test_upload_env \<and>
      map_of (users test_store) ''user-1'' = Some (the (map_of (users test_store) ''user-1'')) \<and>
      ''test'' \<notin> set (map slug (sites (the (map_of (users test_store) ''user-1'')))) \<and>
      ''test-1'' \<notin> set (map slug (sites (the (map_of (users test_store) ''user-1''))))"
    by (simp add: test_upload_body_def test_upload_env_ok test_store_user)
  from unique_slug_resolves [THEN conjunct2, THEN conjunct2, THEN conjunct2, rule_format, OF hyps]
  obtain r1 st1 r2 st2 where
    run: "upload test_upload_env ''user-1'' ?b test_store = (Inr r1, st1)" "res_slug r1 = ''test''"
      "upload test_upload_env ''user-1'' ?b st1 = (Inr r2, st2)" "res_slug r2 = ''test-1''"
    by blast
  from upload_InrD [OF run(1)] run(2)
  have "users st1 = AList.update ''user-1''
      ((the (map_of (users test_store) ''user-1''))
        \<lparr>sites := sites (the (map_of (users test_store) ''user-1'')) @ [res_site r1]\<rparr>) (users test_store)"
    and "slug (res_site r1) = ''test''"
    by auto
  then have member: "''test'' \<in> set (map slug (sites (the (map_of (users st1) ''user-1''))))"
    by (simp add: update_conv')
  from unique_slug_resolves [THEN conjunct2, THEN conjunct2, THEN conjunct1, rule_format, OF member]
  have third: "unique_slug (sites (the (map_of (users st1) ''user-1''))) ''test'' =
      ''test'' @ ''-'' @ nat_to_string (LEAST k. 0 < k \<and>
         ''test'' @ ''-'' @ nat_to_string k
           \<notin> set (map slug (sites (the (map_of (users st1) ''user-1'')))))" .
  from first second run member third show ?thesis by blast
qed

section \<open>Failed publishes\<close>

lemma upload_validation_error_no_write:
  "fst (upload env userId body st) = Inl MissingContent \<or>
   fst (upload env userId body st) = Inl InvalidSlug \<Longrightarrow>
     snd (upload env userId body st) = st"
  by (auto simp: upload_def Let_def split: if_splits option.splits sum.splits)

lemma upload_content_write_fails:
  "\<not> write_html_ok env \<Longrightarrow>
     (\<exists>e. fst (upload env userId body st) = Inl e) \<and>
     users (snd (upload env userId body st)) = users st \<and>
     files (snd (upload env userId body st)) = files st"
  by (auto simp: upload_def Let_def split: if_splits option.splits sum.splits)

lemma upload_content_write_error:
  "truthy (html body) \<and> read_users_ok env \<and> map_of (users st) userId = Some u \<and>
   candidate_slug (siteSlug body) (siteName body) = Inr c \<and> validateSubdomain c \<and>
   mkdir_ok env \<and> \<not> write_html_ok env \<Longrightarrow>
     fst (upload env userId body st) = Inl (UploadFailed IOError)"
  by (simp add: upload_def Let_def)

text \<open>
  C2. A publish that fails leaves the user's site collection as it was. Without HTML
  (absent or empty) the handler answers \<open>MissingContent\<close> and the store is unchanged;
  whenever it answers \<open>MissingContent\<close> or \<open>InvalidSlug\<close> nothing at all has been
  written; when the write of \<^verbatim>\<open>index.html\<close> fails the publish fails (with the I/O error
  of the handler's catch block once the request has passed validation), and neither the
  users' site lists nor the stored files have changed: no site record is appended for
  content that was not written.
\<close>

theorem publish_failure_keeps_sites:
  "(\<not> truthy (html body) \<longrightarrow> upload env userId body st = (Inl MissingContent, st)) \<and>
   (fst (upload env userId body st) = Inl MissingContent \<or>
    fst (upload env userId body st) = Inl InvalidSlug \<longrightarrow>
      snd (upload env userId body st) = st) \<and>
   (\<not> write_html_ok env \<longrightarrow>
      (\<exists>e. fst (upload env userId body st) = Inl e) \<and>
      users (snd (upload env userId body st)) = users st \<and>
      files (snd (upload env userId body st)) = files st) \<and>
   (truthy (html body) \<and> read_users_ok env \<and> map_of (users st) userId = Some u \<and>
    candidate_slug (siteSlug body) (siteName body) = Inr c \<and> validateSubdomain c \<and>
    mkdir_ok env \<and> \<not> write_html_ok env \<longrightarrow>
      fst (upload env userId body st) = Inl (UploadFailed IOError))"
proof (intro conjI impI)
  assume "\<not> truthy (html body)"
  then show "upload env userId body st = (Inl MissingContent, st)"
    by (simp add: upload_def)
next
  assume "fst (upload env userId body st) = Inl MissingContent \<or>
    fst (upload env userId body st) = Inl InvalidSlug"
  then show "snd (upload env userId body st) = st"
    by (rule upload_validation_error_no_write)
next
  assume failed: "\<not> write_html_ok env"
  from upload_content_write_fails [OF failed]
  show "\<exists>e. fst (upload env userId body st) = Inl e"
    and "users (snd (upload env userId body st)) = users st"
    and "files (snd (upload env userId body st)) = files st"
    by blast+
next
  assume "truthy (html body) \<and> read_users_ok env \<and> map_of (users st) userId = Some u \<and>
    candidate_slug (siteSlug body) (siteName body) = Inr c \<and> validateSubdomain c \<and>
    mkdir_ok env \<and> \<not> write_html_ok env"
  then show "fst (upload env userId body st) = Inl (UploadFailed IOError)"
    by (rule upload_content_write_error)
qed

theorem publish_failure_keeps_sites_witness:
  "upload test_upload_env ''user-1'' (test_upload_body\<lparr>html := Some []\<rparr>) test_store =
     (Inl MissingContent, test_store) \<and>
   upload test_upload_env ''user-1'' (test_upload_body\<lparr>html := None\<rparr>) test_store =
     (Inl MissingContent, test_store) \<and>
   fst (upload test_upload_env ''user-1'' (test_upload_body\<lparr>siteSlug := Some ''Ab''\<rparr>) test_store) =
     Inl InvalidSlug \<and>
   snd (upload test_upload_env ''user-1'' (test_upload_body\<lparr>siteSlug := Some ''Ab''\<rparr>) test_store) =
     test_store \<and>
   fst (upload (test_upload_env\<lparr>write_html_ok := False\<rparr>) ''user-1'' test_upload_body test_store) =
     Inl (UploadFailed IOError) \<and>
   users (snd (upload (test_upload_env\<lparr>write_html_ok := False\<rparr>) ''user-1'' test_upload_body
     test_store)) = users test_store \<and>
   files (snd (upload (test_upload_env\<lparr>write_html_ok := False\<rparr>) ''user-1'' test_upload_body
     test_store)) = files test_store"
proof -
  let ?short = "test_upload_body\<lparr>siteSlug := Some ''Ab''\<rparr>"
  let ?env = "test_upload_env\<lparr>write_html_ok := False\<rparr>"
  have empty: "upload test_upload_env ''user-1'' (test_upload_body\<lparr>html := Some []\<rparr>) test_store =
      (Inl MissingContent, test_store)"
    using publish_failure_keeps_sites [THEN conjunct1,
        of "test_upload_body\<lparr>html := Some []\<rparr>" test_upload_env "''user-1''" test_store]
    by simp
  have absent: "upload test_upload_env ''user-1'' (test_upload_body\<lparr>html := None\<rparr>) test_store =
      (Inl MissingContent, test_store)"
    using publish_failure_keeps_sites [THEN conjunct1,
        of "test_upload_body\<lparr>html := None\<rparr>" test_upload_env "''user-1''" test_store]
    by simp
  have invalid: "fst (upload test_upload_env ''user-1'' ?short test_store) = Inl InvalidSlug"
    by (simp add: upload_def test_upload_body_def test_upload_env_def test_store_user
        candidate_slug_def validate_defs)
  then have unchanged: "snd (upload test_upload_env ''user-1'' ?short test_store) = test_store"
    using publish_failure_keeps_sites [THEN conjunct2, THEN conjunct1,
        of test_upload_env "''user-1''" ?short test_store]
    by simp
  have write_fails: "\<not> write_html_ok ?env"
    by simp
  have reaches: "truthy (html test_upload_body) \<and> read_users_ok ?env \<and>
      map_of (users test_store) ''user-1'' = Some (the (map_of (users test_store) ''user-1'')) \<and>
      candidate_slug (siteSlug test_upload_body) (siteName test_upload_body) = Inr ''upload-test'' \<and>
      validateSubdomain ''upload-test'' \<and> mkdir_ok ?env \<and> \<not> write_html_ok ?env"
    by (simp add: test_upload_body_def test_upload_env_def test_store_user candidate_slug_def
        validate_defs)
  from publish_failure_keeps_sites [THEN conjunct2, THEN conjunct2, THEN conjunct1, rule_format,
      OF write_fails, of "''user-1''" test_upload_body test_store]
  have kept: "users (snd (upload ?env ''user-1'' test_upload_body test_store)) = users test_store"
    "files (snd (upload ?env ''user-1'' test_upload_body test_store)) = files test_store"
    by simp_all
  from publish_failure_keeps_sites [THEN conjunct2, THEN conjunct2, THEN conjunct2, rule_format,
      OF reaches]
  have io_error: "fst (upload ?env ''user-1'' test_upload_body test_store) = Inl (UploadFailed IOError)" .
  from empty absent invalid unchanged kept io_error show ?thesis by simp
qed

section \<open>The selected domain\<close>

text \<open>
  C3, as stated, fails: a preferred domain outside the configured list is stored as the
  site's domain. The user of the test script publishes with the preferred domain
  \<^verbatim>\<open>evil.example\<close>, which is neither in \<^const>\<open>SUPPORTED_DOMAINS\<close> nor the primary domain;
  the publish succeeds and both the site record and the response carry
  \<^verbatim>\<open>evil.example\<close>.
\<close>

theorem selected_domain_not_checked:
  "map_sum id (domain \<circ> res_site)
     (fst (upload test_upload_env ''user-1''
        (test_upload_body\<lparr>preferredDomain := Some ''evil.example''\<rparr>) test_store)) =
     Inr ''evil.example'' \<and>
   ''evil.example'' \<notin> set SUPPORTED_DOMAINS \<and>
   ''evil.example'' \<noteq> PRIMARY_DOMAIN"
proof -
  let ?body = "test_upload_body\<lparr>preferredDomain := Some ''evil.example''\<rparr>"
  have "candidate_slug (siteSlug ?body) (siteName ?body) = Inr ''upload-test''"
    by (simp add: test_upload_body_def candidate_slug_def)
  moreover have "validateSubdomain ''upload-test''"
    by (simp add: validate_defs)
  moreover have "truthy (html ?body)"
    by (simp add: test_upload_body_def)
  ultimately have "map_sum id (domain \<circ> res_site)
      (fst (upload test_upload_env ''user-1'' ?body test_store)) =
      Inr (js_or (preferredDomain ?body) PRIMARY_DOMAIN)"
    using test_upload_env_ok test_store_user by (intro upload_ok_response(3))
  then show ?thesis
    by (simp add: js_or_def SUPPORTED_DOMAINS_def PRIMARY_DOMAIN_def)
qed

text \<open>
  C3, amended. For every successful publish, the domain of the created site (and the
  domain of the response) is the request's preferred domain when one is supplied and
  not empty, whether or not it is in the configured domain list, and the configured
  primary domain otherwise. In particular a preferred domain of the list is kept, and
  without a preferred domain the site gets the primary domain.
\<close>

theorem selected_domain:
  "upload env userId body st = (Inr r, st') \<longrightarrow>
     domain (res_site r) =
       (case preferredDomain body of
          None \<Rightarrow> PRIMARY_DOMAIN
        | Some d \<Rightarrow> if d = [] then PRIMARY_DOMAIN else d) \<and>
     res_domain r = domain (res_site r) \<and>
     (\<forall>d. preferredDomain body = Some d \<and> d \<in> set SUPPORTED_DOMAINS \<longrightarrow> domain (res_site r) = d)"
proof
  assume "upload env userId body st = (Inr r, st')"
  from upload_InrD [OF this]
  have site: "domain (res_site r) = js_or (preferredDomain body) PRIMARY_DOMAIN"
    and response: "res_domain r = js_or (preferredDomain body) PRIMARY_DOMAIN"
    by auto
  have nonempty: "\<forall>d \<in> set SUPPORTED_DOMAINS. d \<noteq> []"
    by (simp add: SUPPORTED_DOMAINS_def)
  from site have "domain (res_site r) =
      (case preferredDomain body of
         None \<Rightarrow> PRIMARY_DOMAIN
       | Some d \<Rightarrow> if d = [] then PRIMARY_DOMAIN else d)"
    by (simp add: js_or_def)
  moreover from site response have "res_domain r = domain (res_site r)"
    by simp
  moreover from site nonempty
  have "\<forall>d. preferredDomain body = Some d \<and> d \<in> set SUPPORTED_DOMAINS \<longrightarrow> domain (res_site r) = d"
    by (auto simp: js_or_def)
  ultimately show "domain (res_site r) =
       (case preferredDomain body of
          None \<Rightarrow> PRIMARY_DOMAIN
        | Some d \<Rightarrow> if d = [] then PRIMARY_DOMAIN else d) \<and>
     res_domain r = domain (res_site r) \<and>
     (\<forall>d. preferredDomain body = Some d \<and> d \<in> set SUPPORTED_DOMAINS \<longrightarrow> domain (res_site r) = d)"
    by blast
qed

theorem selected_domain_witness:
  "(\<exists>r st'. upload test_upload_env ''user-1'' test_upload_body test_store = (Inr r, st') \<and>
      domain (res_site r) = ''ntandostore'' \<and> res_domain r = ''ntandostore'') \<and>
   (\<exists>r st'. upload test_upload_env ''user-1'' (test_upload_body\<lparr>preferredDomain := Some ''ntando.dev''\<rparr>)
        test_store = (Inr r, st') \<and>
      domain (res_site r) = ''ntando.dev'') \<and>
   (\<exists>r st'. upload test_upload_env ''user-1'' (test_upload_body\<lparr>preferredDomain := None\<rparr>)
        test_store = (Inr r, st') \<and>
      domain (res_site r) = PRIMARY_DOMAIN)"
proof -
  have valid: "validateSubdomain ''upload-test''"
    by (simp add: validate_defs)
  have run: "\<exists>r st'. upload test_upload_env ''user-1'' (test_upload_body\<lparr>preferredDomain := p\<rparr>)
      test_store = (Inr r, st')" for p
    by (rule upload_succeeds [OF _ test_upload_env_ok test_store_user _ valid])
      (simp_all add: test_upload_body_def candidate_slug_def)
  from run [of "Some ''ntandostore''"]
  obtain r1 st1 where first:
    "upload test_upload_env ''user-1'' test_upload_body test_store = (Inr r1, st1)"
    by (auto simp: test_upload_body_def)
  from run obtain r2 st2 where second:
    "upload test_upload_env ''user-1'' (test_upload_body\<lparr>preferredDomain := Some ''ntando.dev''\<rparr>)
       test_store = (Inr r2, st2)"
    by blast
  from run obtain r3 st3 where third:
    "upload test_upload_env ''user-1'' (test_upload_body\<lparr>preferredDomain := None\<rparr>)
       test_store = (Inr r3, st3)"
    by blast
  from selected_domain [rule_format, OF first]
  have "domain (res_site r1) = ''ntandostore'' \<and> res_domain r1 = ''ntandostore''"
    by (simp add: test_upload_body_def)
  moreover from selected_domain [rule_format, OF second]
  have "domain (res_site r2) = ''ntando.dev''"
    by simp
  moreover from selected_domain [rule_format, OF third]
  have "domain (res_site r3) = PRIMARY_DOMAIN"
    by simp
  ultimately show ?thesis
    using first second third by blast
qed

section \<open>The site record\<close>

text \<open>
  C9. Every site record created by a successful publish (the record of the response,
  which is the record appended to the user's site list) has visit counter 0,
  publication flag true, and as display name the supplied display name, or
  \<^verbatim>\<open>Untitled Site\<close> when none is supplied (absent or the empty string, which JavaScript's
  \<^verbatim>\<open>||\<close> treats alike).
\<close>

theorem new_site_record:
  "upload env userId body st = (Inr r, st') \<longrightarrow>
     visits (res_site r) = 0 \<and> published (res_site r) \<and>
     name (res_site r) =
       (case siteName body of
          None \<Rightarrow> ''Untitled Site''
        | Some n \<Rightarrow> if n = [] then ''Untitled Site'' else n) \<and>
     (\<exists>u. map_of (users st) userId = Some u \<and>
          map_of (users st') userId = Some (u\<lparr>sites := sites u @ [res_site r]\<rparr>))"
proof
  assume "upload env userId body st = (Inr r, st')"
  from upload_InrD [OF this] obtain u where
    u: "map_of (users st) userId = Some u"
    and fields: "visits (res_site r) = 0" "published (res_site r)"
      "name (res_site r) = js_or (siteName body) ''Untitled Site''"
    and appended: "users st' = AList.update userId (u\<lparr>sites := sites u @ [res_site r]\<rparr>) (users st)"
    by auto
  from appended have "map_of (users st') userId = Some (u\<lparr>sites := sites u @ [res_site r]\<rparr>)"
    by (simp add: update_conv')
  with u fields show "visits (res_site r) = 0 \<and> published (res_site r) \<and>
     name (res_site r) =
       (case siteName body of
          None \<Rightarrow> ''Untitled Site''
        | Some n \<Rightarrow> if n = [] then ''Untitled Site'' else n) \<and>
     (\<exists>u. map_of (users st) userId = Some u \<and>
          map_of (users st') userId = Some (u\<lparr>sites := sites u @ [res_site r]\<rparr>))"
    by (simp add: js_or_def)
qed

theorem new_site_record_witness:
  "(\<exists>r st'. upload test_upload_env ''user-1'' test_upload_body test_store = (Inr r, st') \<and>
      visits (res_site r) = 0 \<and> published (res_site r) \<and> name (res_site r) = ''Upload Test Site'' \<and>
      map (name) (sites (the (map_of (users st') ''user-1''))) = [''Upload Test Site'']) \<and>
   (\<exists>r st'. upload test_upload_env ''user-1'' (test_upload_body\<lparr>siteName := None\<rparr>) test_store
        = (Inr r, st') \<and>
      visits (res_site r) = 0 \<and> published (res_site r) \<and> name (res_site r) = ''Untitled Site'')"
proof -
  have valid: "validateSubdomain ''upload-test''"
    by (simp add: validate_defs)
  have run: "\<exists>r st'. upload test_upload_env ''user-1'' (test_upload_body\<lparr>siteName := n\<rparr>)
      test_store = (Inr r, st')" for n
    by (rule upload_succeeds [OF _ test_upload_env_ok test_store_user _ valid])
      (simp_all add: test_upload_body_def candidate_slug_def)
  from run [of "Some ''Upload Test Site''"]
  obtain r1 st1 where first:
    "upload test_upload_env ''user-1'' test_upload_body test_store = (Inr r1, st1)"
    by (auto simp: test_upload_body_def)
  from run obtain r2 st2 where second:
    "upload test_upload_env ''user-1'' (test_upload_body\<lparr>siteName := None\<rparr>) test_store
       = (Inr r2, st2)"
    by blast
  from new_site_record [rule_format, OF first]
  have "visits (res_site r1) = 0 \<and> published (res_site r1) \<and>
      name (res_site r1) = ''Upload Test Site'' \<and>
      map (name) (sites (the (map_of (users st1) ''user-1''))) = [''Upload Test Site'']"
    by (auto simp: test_upload_body_def test_store_user)
  with first have named:
    "\<exists>r st'. upload test_upload_env ''user-1'' test_upload_body test_store = (Inr r, st') \<and>
      visits (res_site r) = 0 \<and> published (res_site r) \<and> name (res_site r) = ''Upload Test Site'' \<and>
      map (name) (sites (the (map_of (users st') ''user-1''))) = [''Upload Test Site'']"
    by (intro exI [of _ r1] exI [of _ st1]) simp
  from new_site_record [rule_format, OF second]
  have "visits (res_site r2) = 0 \<and> published (res_site r2) \<and> name (res_site r2) = ''Untitled Site''"
    by simp
  with second have untitled:
    "\<exists>r st'. upload test_upload_env ''user-1'' (test_upload_body\<lparr>siteName := None\<rparr>) test_store
        = (Inr r, st') \<and>
      visits (res_site r) = 0 \<and> published (res_site r) \<and> name (res_site r) = ''Untitled Site''"
    by (intro exI [of _ r2] exI [of _ st2]) simp
  from named untitled show ?thesis ..
qed

section \<open>Explicit slugs\<close>

lemma generateSiteUrls_entry:
  "d \<in> set ds \<Longrightarrow> map_of (generateSiteUrls ds sub sg) d = Some (site_url sub sg d)"
  by (simp add: generateSiteUrls_def generateSiteUrls_foldl_map_of)

lemma unique_slug_prefix: "prefix c (unique_slug ss c)"
proof (cases "slug_taken ss c")
  case True
  then show ?thesis by (simp add: unique_slug_taken suffixed_def)
next
  case False
  then show ?thesis by (simp add: unique_slug_free)
qed

text \<open>
  C10, as stated, fails when the user already has a site with the explicit slug: the
  resolved slug then carries a numeric suffix. The user of the test script publishes
  twice with the explicit slug \<^verbatim>\<open>MyPage\<close>; the second publish is stored under
  \<^verbatim>\<open>MyPage-1\<close>, not under \<^verbatim>\<open>MyPage\<close>.
\<close>

theorem explicit_slug_suffixed_on_collision:
  "map_sum id res_slug
     (fst (upload test_upload_env ''user-1'' (test_upload_body\<lparr>siteSlug := Some ''MyPage''\<rparr>)
        (snd (upload test_upload_env ''user-1'' (test_upload_body\<lparr>siteSlug := Some ''MyPage''\<rparr>)
           test_store)))) = Inr ''MyPage-1'' \<and>
   validateSubdomain ''MyPage''"
proof -
  let ?body = "test_upload_body\<lparr>siteSlug := Some ''MyPage''\<rparr>"
  have valid: "validateSubdomain ''MyPage''"
    by (simp add: validate_defs)
  have html: "truthy (html ?body)" and slug: "siteSlug ?body = Some ''MyPage''"
    by (simp_all add: test_upload_body_def)
  have fresh: "''MyPage'' \<notin> set (map slug (sites (the (map_of (users test_store) ''user-1''))))"
    "''MyPage'' @ ''-1'' \<notin> set (map slug (sites (the (map_of (users test_store) ''user-1''))))"
    by (simp_all add: test_store_user)
  have user: "map_of (users test_store) ''user-1'' = Some (the (map_of (users test_store) ''user-1''))"
    by (simp add: test_store_user)
  from publish_twice_same_slug [OF html slug html slug test_upload_env_ok test_upload_env_ok
      user valid fresh]
  obtain r1 st1 r2 st2 where
    "upload test_upload_env ''user-1'' ?body test_store = (Inr r1, st1)"
    "upload test_upload_env ''user-1'' ?body st1 = (Inr r2, st2)" "res_slug r2 = ''MyPage-1''"
    by auto
  with valid show ?thesis by simp
qed

text \<open>
  C10, amended. An explicitly supplied (non-empty) slug is validated but never
  normalized: in every successful publish with an explicit slug, that slug passed
  validation and is, verbatim and with its case preserved, the candidate of the
  uniqueness loop. The resolved slug is the explicit slug itself when the user has no
  site with that slug, and otherwise the explicit slug followed by a numeric suffix; in
  both cases it starts with the explicit slug, and the URL for every supported domain is
  \<^verbatim>\<open>https://{subdomain}-{resolved slug}.{domain}\<close>, so the explicit slug appears verbatim
  in every generated URL. A publish with a valid explicit slug succeeds whenever the
  HTML is present, the user exists and no file operation fails.
\<close>

theorem explicit_slug_verbatim:
  "(upload env userId body st = (Inr r, st') \<and> siteSlug body = Some s \<and> s \<noteq> [] \<longrightarrow>
     (\<exists>u. map_of (users st) userId = Some u \<and> validateSubdomain s \<and>
        res_slug r = unique_slug (sites u) s \<and> slug (res_site r) = res_slug r \<and>
        (s \<notin> set (map slug (sites u)) \<longrightarrow> res_slug r = s) \<and>
        prefix s (res_slug r) \<and>
        (\<forall>d \<in> set SUPPORTED_DOMAINS.
            map_of (res_urls r) d = Some (''https://'' @ subdomain u @ ''-'' @ res_slug r @ ''.'' @ d)) \<and>
        urls (res_site r) = res_urls r)) \<and>
   (truthy (html body) \<and> io_succeeds env \<and> map_of (users st) userId = Some u' \<and>
    siteSlug body = Some s \<and> validateSubdomain s \<longrightarrow>
      (\<exists>r st'. upload env userId body st = (Inr r, st')))"
proof (intro conjI impI)
  assume h: "upload env userId body st = (Inr r, st') \<and> siteSlug body = Some s \<and> s \<noteq> []"
  then have cand: "candidate_slug (siteSlug body) (siteName body) = Inr s"
    by (simp add: candidate_slug_explicit)
  from h upload_InrD [of env userId body st r st'] cand obtain u where
    u: "map_of (users st) userId = Some u" and valid: "validateSubdomain s"
    and resolved: "res_slug r = unique_slug (sites u) s"
    and site: "res_site r = \<lparr>site_id = site_uuid env, name = js_or (siteName body) ''Untitled Site'',
          slug = unique_slug (sites u) s, domain = js_or (preferredDomain body) PRIMARY_DOMAIN,
          urls = generateSiteUrls SUPPORTED_DOMAINS (subdomain u) (unique_slug (sites u) s),
          createdAt = created_now env, updatedAt = updated_now env, visits = 0, published = True\<rparr>"
    and mapping: "res_urls r = generateSiteUrls SUPPORTED_DOMAINS (subdomain u) (unique_slug (sites u) s)"
    by auto
  have "s \<notin> set (map slug (sites u)) \<longrightarrow> res_slug r = s"
    using resolved by (simp add: unique_slug_free slug_taken_iff)
  moreover have "prefix s (res_slug r)"
    using resolved by (simp add: unique_slug_prefix)
  moreover have "\<forall>d \<in> set SUPPORTED_DOMAINS.
      map_of (res_urls r) d = Some (''https://'' @ subdomain u @ ''-'' @ res_slug r @ ''.'' @ d)"
    using resolved mapping by (simp add: generateSiteUrls_entry site_url_def)
  moreover have "slug (res_site r) = res_slug r" "urls (res_site r) = res_urls r"
    using site resolved mapping by simp_all
  ultimately show "\<exists>u. map_of (users st) userId = Some u \<and> validateSubdomain s \<and>
        res_slug r = unique_slug (sites u) s \<and> slug (res_site r) = res_slug r \<and>
        (s \<notin> set (map slug (sites u)) \<longrightarrow> res_slug r = s) \<and>
        prefix s (res_slug r) \<and>
        (\<forall>d \<in> set SUPPORTED_DOMAINS.
            map_of (res_urls r) d = Some (''https://'' @ subdomain u @ ''-'' @ res_slug r @ ''.'' @ d)) \<and>
        urls (res_site r) = res_urls r"
    using u valid resolved by blast
next
  assume h: "truthy (html body) \<and> io_succeeds env \<and> map_of (users st) userId = Some u' \<and>
    siteSlug body = Some s \<and> validateSubdomain s"
  then have "s \<noteq> []"
    by (auto simp: validateSubdomain_def)
  with h have "candidate_slug (siteSlug body) (siteName body) = Inr s"
    by (simp add: candidate_slug_explicit)
  with h show "\<exists>r st'. upload env userId body st = (Inr r, st')"
    by (intro upload_succeeds [of body env st userId u' s]) simp_all
qed

theorem explicit_slug_verbatim_witness:
  "\<exists>r st'. upload test_upload_env ''user-1'' (test_upload_body\<lparr>siteSlug := Some ''MyPage''\<rparr>) test_store
       = (Inr r, st') \<and>
     res_slug r = ''MyPage'' \<and> slug (res_site r) = ''MyPage'' \<and>
     map_of (res_urls r) ''ntando.dev'' = Some ''https://uploadtest-quicksite1-MyPage.ntando.dev'' \<and>
     map_of (urls (res_site r)) ''ntandostore'' = Some ''https://uploadtest-quicksite1-MyPage.ntandostore''"
proof -
  let ?body = "test_upload_body\<lparr>siteSlug := Some ''MyPage''\<rparr>"
  have valid: "validateSubdomain ''MyPage''"
    by (simp add: validate_defs)
  have ready: "truthy (html ?body) \<and> io_succeeds test_upload_env \<and>
      map_of (users test_store) ''user-1'' = Some (the (map_of (users test_store) ''user-1'')) \<and>
      siteSlug ?body = Some ''MyPage'' \<and> validateSubdomain ''MyPage''"
    using valid by (simp add: test_upload_body_def test_upload_env_ok test_store_user)
  from explicit_slug_verbatim [THEN conjunct2, rule_format, OF ready]
  obtain r st' where run: "upload test_upload_env ''user-1'' ?body test_store = (Inr r, st')"
    by blast
  then have "upload test_upload_env ''user-1'' ?body test_store = (Inr r, st') \<and>
      siteSlug ?body = Some ''MyPage'' \<and> ''MyPage'' \<noteq> []"
    by simp
  from explicit_slug_verbatim [THEN conjunct1, rule_format, OF this]
  have "res_slug r = ''MyPage'' \<and> slug (res_site r) = ''MyPage'' \<and>
     map_of (res_urls r) ''ntando.dev'' = Some ''https://uploadtest-quicksite1-MyPage.ntando.dev'' \<and>
     map_of (urls (res_site r)) ''ntandostore'' = Some ''https://uploadtest-quicksite1-MyPage.ntandostore''"
    by (auto simp: test_store_user SUPPORTED_DOMAINS_def)
  with run show ?thesis by blast
qed

section \<open>Slug normalization\<close>

lemmas normalize_defs =
  spec_normalize_def spec_strip_hyphens_def spec_replace_runs_def toLowerCase_def
  toLowerCase_char_def is_a_z_0_9_def lower_letters_def upper_letters_def digits_def

lemmas derive_defs =
  derive_slug_def js_or_def strip_edge_hyphens_def toLowerCase_def toLowerCase_char_def
  is_a_z_0_9_def startsWith_def endsWith_def lower_letters_def upper_letters_def digits_def

text \<open>
  C6, as stated, fails for a raw name that is not empty but has no character of
  \<^verbatim>\<open>[a-z0-9]\<close> after lowercasing: the name \<^verbatim>\<open>!!!\<close> normalizes (lowercase, runs to a
  hyphen, hyphens stripped) to the empty string, and the candidate slug the handler
  derives is \<^verbatim>\<open>site\<close>, not that empty string.
\<close>

theorem derive_slug_falls_back_when_empty:
  "derive_slug (Some ''!!!'') = Inr ''site'' \<and> spec_normalize ''!!!'' = []"
proof
  show "derive_slug (Some ''!!!'') = Inr ''site''"
    by (simp add: derive_defs)
  show "spec_normalize ''!!!'' = []"
    by (simp add: normalize_defs)
qed

text \<open>
  C6, amended. The candidate slug derived from a raw name that is present is a function
  of the raw name alone: it is the raw name lowercased, with every maximal run of
  characters outside \<^verbatim>\<open>[a-z0-9]\<close> replaced by a single hyphen and leading and trailing
  hyphens stripped, unless that string is empty, in which case (in particular for the
  empty raw name) it is the literal \<^verbatim>\<open>site\<close>. The name of the test script,
  \<^verbatim>\<open>Upload Test Site\<close>, gives \<^verbatim>\<open>upload-test-site\<close>.
\<close>

theorem derive_slug_normalizes:
  "derive_slug (Some n) = Inr (if spec_normalize n = [] then ''site'' else spec_normalize n) \<and>
   derive_slug (Some []) = Inr ''site'' \<and>
   derive_slug (Some ''Upload Test Site'') = Inr ''upload-test-site''"
proof (intro conjI)
  show "derive_slug (Some n) = Inr (if spec_normalize n = [] then ''site'' else spec_normalize n)"
    by (rule derive_slug_Some)
  show "derive_slug (Some []) = Inr ''site''"
    by (simp add: derive_defs)
  show "derive_slug (Some ''Upload Test Site'') = Inr ''upload-test-site''"
    by (simp add: derive_defs)
qed

section \<open>Slug validation\<close>




lemma upload_absent_name:
  "truthy (html body) \<Longrightarrow> read_users_ok env \<Longrightarrow> map_of (users st) userId = Some u \<Longrightarrow>
   \<not> truthy (siteSlug body) \<Longrightarrow> siteName body = None \<Longrightarrow>
     upload env userId body st = (Inl (UploadFailed TypeError), st)"
  by (simp add: upload_def candidate_slug_def derive_slug_def)




section \<open>Asset weaving\<close>

lemma getSubstitution_plain:
  "CHR ''$'' \<notin> set t \<Longrightarrow> getSubstitution m b a t = t"
  by (induction m b a t rule: getSubstitution.induct) auto

lemma find_first_Some: "find_first p h = Some (a, b) \<Longrightarrow> h = a @ p @ b"
proof (induction h arbitrary: a)
  case Nil
  then show ?case by (simp split: if_splits)
next
  case (Cons c cs)
  show ?case
  proof (cases "prefix p (c # cs)")
    case True
    with Cons.prems have found: "a = []" "b = drop (length p) (c # cs)"
      by simp_all
    from True obtain zs where split: "c # cs = p @ zs"
      by (auto simp: prefix_def)
    then have "drop (length p) (c # cs) = zs"
      by simp
    with found split show ?thesis by simp
  next
    case False
    with Cons.prems obtain a' where "find_first p cs = Some (a', b)" and "a = c # a'"
      by auto
    with Cons.IH [of a'] show ?thesis by simp
  qed
qed

lemma replace_first_plain:
  "CHR ''$'' \<notin> set r \<Longrightarrow> find_first p h = Some (a, b) \<Longrightarrow> replace_first h p r = a @ r @ b"
  by (simp add: replace_first_def getSubstitution_plain)

lemma replace_first_no_marker: "find_first p h = None \<Longrightarrow> replace_first h p r = h"
  by (simp add: replace_first_def)

lemma weave_no_assets: "weave h None None None = h"
  by (simp add: weave_def)

lemma weave_script_plain:
  "j \<noteq> [] \<Longrightarrow> CHR ''$'' \<notin> set j \<Longrightarrow> find_first ''</body>'' h = Some (a, b) \<Longrightarrow>
     weave h None None (Some j) = a @ ''<script>'' @ j @ ''</script>'' @ ''</body>'' @ b"
  by (simp add: weave_def replace_first_plain)

lemma weave_script_no_marker:
  "find_first ''</body>'' h = None \<Longrightarrow> weave h None None (Some j) = h"
  by (simp add: weave_def replace_first_no_marker)

text \<open>
  C8. The claim describes what the handler sets out to do, and the handler does it when
  the assets contain no dollar sign (\<open>replace_first_plain\<close>, \<open>weave_script_plain\<close>) and leaves
  the document alone when a marker is missing (\<open>replace_first_no_marker\<close>). But \<^verbatim>\<open>String.prototype.replace\<close>
  interprets \<^verbatim>\<open>$$\<close>, \<^verbatim>\<open>$&\<close>, \<^verbatim>\<open>$`\<close> and \<^verbatim>\<open>$'\<close> in its replacement argument, into which
  the handler splices the asset. For the script \<^verbatim>\<open>var c = '$';\<close> the persisted document
  does not contain the script: the characters \<^verbatim>\<open>$'\<close> have become \<^verbatim>\<open></html>\<close>, the text
  after the body's closing tag.
\<close>

theorem script_with_dollar_is_rewritten:
  "map_of
     (files (snd (upload test_upload_env ''user-1''
        (test_upload_body\<lparr>html := Some ''<html><head></head><body></body></html>'', css := None,
           js := Some (''var c = '' @ [CHR 0x27, CHR ''$'', CHR 0x27] @ '';'')\<rparr>) test_store)))
     [''uploadtest-quicksite1'', ''upload-test'', ''index.html''] =
     Some (''<html><head></head><body><script>var c = '' @ [CHR 0x27] @
           ''</html>;</script></body></html>'') \<and>
   ''<html><head></head><body><script>var c = '' @ [CHR 0x27] @ ''</html>;</script></body></html>'' \<noteq>
   ''<html><head></head><body>'' @
     (''<script>'' @ (''var c = '' @ [CHR 0x27, CHR ''$'', CHR 0x27] @ '';'') @ ''</script>'') @
     ''</body></html>''"
proof
  let ?body = "test_upload_body\<lparr>html := Some ''<html><head></head><body></body></html>'', css := None,
      js := Some (''var c = '' @ [CHR 0x27, CHR ''$'', CHR 0x27] @ '';'')\<rparr>"
  have woven: "weave (the (html ?body)) (favicon ?body) (css ?body) (js ?body) =
      ''<html><head></head><body><script>var c = '' @ [CHR 0x27] @ ''</html>;</script></body></html>''"
    by (simp add: test_upload_body_def weave_def replace_first_def)
  have "candidate_slug (siteSlug ?body) (siteName ?body) = Inr ''upload-test''"
    by (simp add: test_upload_body_def candidate_slug_def)
  moreover have "validateSubdomain ''upload-test''"
    by (simp add: validate_defs)
  moreover have "truthy (html ?body)"
    by simp
  ultimately have "map_of (files (snd (upload test_upload_env ''user-1'' ?body test_store)))
      [subdomain (the (map_of (users test_store) ''user-1'')),
       unique_slug (sites (the (map_of (users test_store) ''user-1''))) ''upload-test'',
       ''index.html''] =
      Some (weave (the (html ?body)) (favicon ?body) (css ?body) (js ?body))"
    using test_upload_env_ok test_store_user by (intro upload_ok_store(2)) simp_all
  then show "map_of (files (snd (upload test_upload_env ''user-1'' ?body test_store)))
      [''uploadtest-quicksite1'', ''upload-test'', ''index.html''] =
      Some (''<html><head></head><body><script>var c = '' @ [CHR 0x27] @
            ''</html>;</script></body></html>'')"
    by (simp only: woven) (simp add: test_store_user unique_slug_free slug_taken_def)
  show "''<html><head></head><body><script>var c = '' @ [CHR 0x27] @
      ''</html>;</script></body></html>'' \<noteq>
    ''<html><head></head><body>'' @
     (''<script>'' @ (''var c = '' @ [CHR 0x27, CHR ''$'', CHR 0x27] @ '';'') @ ''</script>'') @
     ''</body></html>''"
    by simp
qed

section \<open>Subdomain identities\<close>

lemma nat_to_string_digits: "set (nat_to_string n) \<subseteq> set digits"
proof (induction n rule: nat_to_string.induct)
  case (1 n)
  have digit: "digit_char d \<in> set digits" if "d < 10" for d
  proof -
    from that have "d < length digits"
      by (simp add: digits_def)
    then show ?thesis
      unfolding digit_char_def by (rule nth_mem)
  qed
  show ?case
  proof (cases "n < 10")
    case True
    then show ?thesis
      using digit [of n] by (simp add: nat_to_string.simps [of n])
  next
    case False
    with "1.IH" digit [of "n mod 10"] show ?thesis
      by (simp add: nat_to_string.simps [of n])
  qed
qed

lemma element_at_no_hyphen:
  "\<forall>x \<in> set xs. CHR ''-'' \<notin> set x \<Longrightarrow> CHR ''-'' \<notin> set (element_at xs i)"
  by (simp add: element_at_def)

lemma generateSubdomain_shape:
  "\<exists>t. generateSubdomain r n = n @ ''-'' @ t \<and> CHR ''-'' \<notin> set t"
proof -
  have "CHR ''-'' \<notin> set (element_at adjectives (draw_adjective r))"
    by (rule element_at_no_hyphen) (simp add: adjectives_def)
  moreover have "CHR ''-'' \<notin> set (element_at nouns (draw_noun r))"
    by (rule element_at_no_hyphen) (simp add: nouns_def)
  moreover have "CHR ''-'' \<notin> set (nat_to_string (draw_number r + 1))"
    using nat_to_string_digits [of "draw_number r + 1"] by (auto simp: digits_def)
  ultimately show ?thesis
    by (simp add: generateSubdomain_def Let_def)
qed



lemma update_entries: "set (AList.update k v al) \<subseteq> insert (k, v) (set al)"
proof (induction al)
  case Nil
  show ?case by simp
next
  case (Cons p ps)
  show ?case
  proof (cases "fst p = k")
    case True
    then show ?thesis by (simp add: subset_insertI2)
  next
    case False
    with Cons show ?thesis by (simp add: subset_iff) blast
  qed
qed

lemma update_distinct_field:
  "distinct (map (f \<circ> snd) al) \<Longrightarrow> f v \<notin> (f \<circ> snd) ` set al \<Longrightarrow>
     distinct (map (f \<circ> snd) (AList.update k v al))"
proof (induction al)
  case Nil
  then show ?case by simp
next
  case (Cons p ps)
  show ?case
  proof (cases "fst p = k")
    case True
    with Cons.prems show ?thesis by auto
  next
    case False
    have "(f \<circ> snd) ` set (AList.update k v ps) \<subseteq> insert (f v) ((f \<circ> snd) ` set ps)"
      using update_entries [of k v ps] by auto
    with Cons.prems have "f (snd p) \<notin> (f \<circ> snd) ` set (AList.update k v ps)"
      by auto
    with False Cons show ?thesis by auto
  qed
qed

lemma update_keeps_field:
  "map_of al k = Some u \<Longrightarrow> f u' = f u \<Longrightarrow> map (f \<circ> snd) (AList.update k u' al) = map (f \<circ> snd) al"
  by (induction al) (auto split: if_splits)

lemma users_inv_add_user:
  assumes inv: "users_inv al"
    and new: "\<not> list_ex (\<lambda>u. username u = username v) (map snd al)" "subdomain_generated v"
  shows "users_inv (AList.update k v al)"
  unfolding users_inv_def
proof (intro conjI)
  show "distinct (map fst (AList.update k v al))"
    using inv by (simp add: users_inv_def distinct_update)
  from new(1) have "username v \<notin> (username \<circ> snd) ` set al"
    by (auto simp: list_ex_iff)
  with inv show "distinct (map (username \<circ> snd) (AList.update k v al))"
    by (intro update_distinct_field) (simp_all add: users_inv_def)
  show "\<forall>p \<in> set (AList.update k v al). subdomain_generated (snd p)"
    using update_entries [of k v al] inv new(2) by (auto simp: users_inv_def)
qed

lemma register_users:
  "users (snd (register env body st)) = users st \<or>
   (\<not> list_ex (\<lambda>u. username u = the (reg_username body))
        (map snd (if reg_read_users_ok env then users st else [])) \<and>
    users (snd (register env body st)) =
      AList.update (reg_uuid env)
        \<lparr>user_id = reg_uuid env, username = the (reg_username body),
          email = the (reg_email body), password = reg_hash env, user_createdAt = reg_now env,
          subdomain = generateSubdomain (reg_draws env) (the (reg_username body)), sites = []\<rparr>
        (if reg_read_users_ok env then users st else []))"
  by (simp add: register_def Let_def)

lemma register_preserves_inv:
  assumes "users_inv (users st)"
  shows "users_inv (users (snd (register env body st)))"
proof -
  let ?n = "the (reg_username body)"
  let ?v = "\<lparr>user_id = reg_uuid env, username = ?n, email = the (reg_email body),
      password = reg_hash env, user_createdAt = reg_now env,
      subdomain = generateSubdomain (reg_draws env) ?n, sites = []\<rparr>"
  let ?al = "if reg_read_users_ok env then users st else []"
  have generated: "subdomain_generated ?v"
    using generateSubdomain_shape [of "reg_draws env" ?n] by (simp add: subdomain_generated_def)
  have old: "users_inv ?al"
    using assms by (simp add: users_inv_def)
  from register_users [of env body st] show ?thesis
  proof
    assume "users (snd (register env body st)) = users st"
    with assms show ?thesis by simp
  next
    assume "\<not> list_ex (\<lambda>u. username u = ?n) (map snd ?al) \<and>
      users (snd (register env body st)) = AList.update (reg_uuid env) ?v ?al"
    then have fresh: "\<not> list_ex (\<lambda>u. username u = username ?v) (map snd ?al)"
      and result: "users (snd (register env body st)) = AList.update (reg_uuid env) ?v ?al"
      by simp_all
    from users_inv_add_user [OF old fresh generated] result show ?thesis
      by simp
  qed
qed

lemma upload_preserves_inv:
  assumes "users_inv (users st)"
  shows "users_inv (users (snd (upload env userId body st)))"
proof (cases "upload env userId body st")
  case (Pair res st')
  show ?thesis
  proof (cases res)
    case (Inl e)
    with Pair have "users st' = users st"
      by (auto dest: upload_InlD)
    with assms Pair show ?thesis
      by simp
  next
    case (Inr r)
    with Pair have run: "upload env userId body st = (Inr r, st')"
      by simp
    from upload_InrD [OF run] obtain u where
      u: "map_of (users st) userId = Some u"
      and st': "users st' = AList.update userId (u\<lparr>sites := sites u @ [res_site r]\<rparr>) (users st)"
      by auto
    let ?u' = "u\<lparr>sites := sites u @ [res_site r]\<rparr>"
    from u have in_store: "(userId, u) \<in> set (users st)"
      by (rule map_of_SomeD)
    with assms have "subdomain_generated u"
      by (auto simp: users_inv_def)
    then have generated: "subdomain_generated ?u'"
      by (simp add: subdomain_generated_def)
    have "distinct (map fst (users st'))"
      using assms st' by (simp add: users_inv_def distinct_update)
    moreover have "map (username \<circ> snd) (users st') = map (username \<circ> snd) (users st)"
      using u st' by (simp add: update_keeps_field)
    moreover have "\<forall>p \<in> set (users st'). subdomain_generated (snd p)"
      using update_entries [of userId ?u' "users st"] assms generated st'
      by (auto simp: users_inv_def)
    ultimately have "users_inv (users st')"
      using assms by (simp add: users_inv_def)
    with Pair show ?thesis by simp
  qed
qed

lemma reachable_inv: "reachable st \<Longrightarrow> users_inv (users st)"
proof (induction rule: reachable.induct)
  case reachable_initial
  show ?case by (simp add: users_inv_def initial_store_def)
next
  case (reachable_register st env body)
  then show ?case by (simp add: register_preserves_inv)
next
  case (reachable_upload st env userId body)
  then show ?case by (simp add: upload_preserves_inv)
qed




lemmas register_eval =
  register_def username_defs generateSubdomain_def element_at_def adjectives_def nouns_def
  nat_to_string_digit digit_char_def Let_def






text \<open>
  The handler contains no comparison of subdomains: what keeps them apart is the
  username check together with the shape of the generated value. On a \<^verbatim>\<open>users.json\<close>
  written by hand, in which a user named \<^verbatim>\<open>legacy\<close> holds \<^verbatim>\<open>uploadtest-quicksite1\<close>,
  the registration of the test script commits a second user with that subdomain. Such a
  store is not reachable: no sequence of registrations and publishes produces it.
\<close>

lemma edited_store_unreachable: "\<not> reachable edited_store"
proof
  assume "reachable edited_store"
  then have "users_inv (users edited_store)"
    by (rule reachable_inv)
  then show False
    by (simp add: users_inv_def subdomain_generated_def edited_store_def)
qed

lemma register_on_edited_store:
  "map (subdomain \<circ> snd) (users edited_store) = [''uploadtest-quicksite1''] \<and>
   map_sum id subdomain (fst (register test_register_env test_register_body edited_store)) =
     Inr ''uploadtest-quicksite1'' \<and>
   map (subdomain \<circ> snd)
     (users (snd (register test_register_env test_register_body edited_store))) =
     [''uploadtest-quicksite1'', ''uploadtest-quicksite1'']"
  by (simp add: edited_store_def test_register_body_def test_register_env_def register_eval)


end
